theory Spec2Isabelle
  imports Complex_Main "HOL-Library.AList" "HOL-Library.Multiset"
begin

section \<open>Python values and errors\<close>

text \<open>
  A vocabulary lookup yields an index or Python's \<open>None\<close>; token lists built from
  lookups therefore hold values of type \<open>pyval\<close>. Exceptions are values of
  \<open>py_error\<close>, and a fallible function returns \<open>py_error + 'a\<close> with \<open>Inl\<close> the
  exception raised.
\<close>

datatype pyval = PyNone | PyInt int

datatype py_error = ValueError | IndexError | TypeError | RuntimeError | ZeroDivisionError

section \<open>Vocab\<close>

text \<open>
  \<open>stoi\<close> is a Python dict: an association list with distinct keys in insertion
  order, written with \<open>AList.update\<close> (overwrite in place, or append) and read with
  \<open>map_of\<close>. \<open>itos\<close> is the list of symbols in line order.
\<close>

record Vocab =
  stoi :: "(string \<times> nat) list"
  itos :: "string list"

definition UNK :: string where
  "UNK = ''[UNK]''"

definition strip_nl :: "string \<Rightarrow> string" where
  \<comment> \<open>\<open>word.strip('\n')\<close>: newlines removed at both ends.\<close>
  "strip_nl word =
     rev (dropWhile (\<lambda>c. c = CHR 0x0A) (rev (dropWhile (\<lambda>c. c = CHR 0x0A) word)))"

fun Vocab_load :: "(nat \<times> string) list \<Rightarrow> Vocab \<Rightarrow> Vocab" where
  \<comment> \<open>The body of \<open>for i, word in enumerate(f)\<close>.\<close>
  "Vocab_load [] v = v"
| "Vocab_load ((i, word) # rest) v =
     Vocab_load rest
       \<lparr>stoi = AList.update (strip_nl word) i (stoi v), itos = itos v @ [strip_nl word]\<rparr>"

definition Vocab_init :: "string list \<Rightarrow> Vocab" where
  \<comment> \<open>\<open>Vocab.__init__\<close>, on the lines the file iteration yields.\<close>
  "Vocab_init file_lines = Vocab_load (enumerate 0 file_lines) \<lparr>stoi = [], itos = []\<rparr>"

definition stoi_get :: "Vocab \<Rightarrow> string \<Rightarrow> pyval \<Rightarrow> pyval" where
  \<comment> \<open>\<open>self.stoi.get(token, default)\<close>.\<close>
  "stoi_get v token dflt = (case map_of (stoi v) token of Some i \<Rightarrow> PyInt (int i) | None \<Rightarrow> dflt)"

definition Vocab_getitem :: "Vocab \<Rightarrow> string \<Rightarrow> py_error + pyval" where
  \<comment> \<open>\<open>Vocab.__getitem__\<close>. \<open>dict.get\<close> raises nothing, so every result is \<open>Inr\<close>.\<close>
  "Vocab_getitem v token = Inr (stoi_get v token (stoi_get v UNK PyNone))"

definition Vocab_len :: "Vocab \<Rightarrow> nat" where
  \<comment> \<open>\<open>Vocab.__len__\<close>\<close>
  "Vocab_len v = length (itos v)"

definition last_index :: "string list \<Rightarrow> string \<Rightarrow> nat \<Rightarrow> bool" where
  \<comment> \<open>\<open>i\<close> is the last position of \<open>w\<close> in \<open>ws\<close>.\<close>
  "last_index ws w i = (i < length ws \<and> ws ! i = w \<and> w \<notin> set (drop (Suc i) ws))"

definition vocab_inv :: "Vocab \<Rightarrow> bool" where
  \<comment> \<open>What the loop of \<open>Vocab.__init__\<close> keeps: the keys of \<open>stoi\<close> are the symbols of
      \<open>itos\<close>, each mapped to its last position.\<close>
  "vocab_inv v =
     (distinct (map fst (stoi v)) \<and> set (map fst (stoi v)) = set (itos v) \<and>
      (\<forall>w i. map_of (stoi v) w = Some i \<longleftrightarrow> last_index (itos v) w i))"

section \<open>The random source\<close>

text \<open>
  The module-level generator of \<open>random\<close> is threaded as explicit state: a tape of raw
  draws, one cell read per call, zeros once the given cells are used up. Each call maps
  its cell onto the range of its result, so every outcome of every call is the image of
  some tape: \<open>random.random()\<close> is \<open>k / 2^53\<close> with \<open>0 \<le> k < 2^53\<close>,
  \<open>random.randint(a, b)\<close> is \<open>a\<close> plus a value below \<open>b - a + 1\<close> and raises
  \<open>ValueError\<close> on an empty range, and \<open>random.shuffle\<close> swaps \<open>x[i]\<close> with
  \<open>x[j]\<close>, \<open>j\<close> below \<open>i + 1\<close>, for \<open>i\<close> from the last index down to 1.
\<close>

type_synonym rng = "nat list"

fun next_draw :: "rng \<Rightarrow> nat \<times> rng" where
  "next_draw [] = (0, [])"
| "next_draw (x # g) = (x, g)"

definition randbelow :: "nat \<Rightarrow> rng \<Rightarrow> nat \<times> rng" where
  "randbelow n g = (case next_draw g of (x, g') \<Rightarrow> (x mod n, g'))"

definition random_random :: "rng \<Rightarrow> rat \<times> rng" where
  "random_random g =
     (case next_draw g of (x, g') \<Rightarrow> (of_nat (x mod 2 ^ 53) / 2 ^ 53, g'))"

definition random_randint :: "int \<Rightarrow> int \<Rightarrow> rng \<Rightarrow> py_error + (int \<times> rng)" where
  "random_randint a b g =
     (if b < a then Inl ValueError
      else case randbelow (nat (b - a + 1)) g of (x, g') \<Rightarrow> Inr (a + int x, g'))"

fun shuffle_loop :: "nat \<Rightarrow> 'a list \<Rightarrow> rng \<Rightarrow> 'a list \<times> rng" where
  \<comment> \<open>\<open>for i in reversed(range(1, len(x))): j = randbelow(i + 1); x[i], x[j] = x[j], x[i]\<close>\<close>
  "shuffle_loop 0 x g = (x, g)"
| "shuffle_loop (Suc k) x g =
     (case randbelow (Suc k + 1) g of
        (j, g') \<Rightarrow> shuffle_loop k (x[Suc k := x ! j, j := x ! Suc k]) g')"

definition random_shuffle :: "'a list \<Rightarrow> rng \<Rightarrow> 'a list \<times> rng" where
  "random_shuffle x g = shuffle_loop (length x - 1) x g"

definition py_round :: "rat \<Rightarrow> int" where
  \<comment> \<open>Python's \<open>round(x)\<close>: to the nearest integer, a tie to the even one.\<close>
  "py_round x =
     (let f = \<lfloor>x\<rfloor>; d = x - of_int f
      in if d < 1 / 2 then f else if 1 / 2 < d then f + 1 else if even f then f else f + 1)"

section \<open>Floats\<close>

text \<open>
  A finite Python float is a double, given by its exact value, a rational. The result of
  a float operation is the exact result rounded to the nearest double, a tie to the even
  mantissa: \<open>round_double\<close> scales the magnitude into \<open>[2^52, 2^53)\<close>, the exponent
  not below \<open>-1074\<close> (the subnormal doubles), and rounds there. The exponent is not
  bounded above: a result of magnitude \<open>2^1024\<close> or more stands for the infinite float,
  on which \<open>round\<close> raises \<open>OverflowError\<close>. The theorems on the number of predictions
  are stated for a finite product, \<open>double_finite\<close>.
\<close>

function scale_down :: "rat \<Rightarrow> int \<Rightarrow> rat \<times> int" where
  \<comment> \<open>Halve down to below \<open>2^53\<close>, counting the exponent.\<close>
  "scale_down x e = (if 2 ^ 53 \<le> x then scale_down (x / 2) (e + 1) else (x, e))"
  by pat_completeness auto
termination
proof (relation "measure (\<lambda>(x, e). nat \<lfloor>x\<rfloor>)")
  show "wf (measure (\<lambda>(x :: rat, e :: int). nat \<lfloor>x\<rfloor>))"
    by simp
next
  fix x :: rat and e :: int
  assume big: "2 ^ 53 \<le> x"
  then have "x / 2 \<le> x - 1"
    by simp
  then have "\<lfloor>x / 2\<rfloor> \<le> \<lfloor>x - 1\<rfloor>"
    by (rule floor_mono)
  then have less: "\<lfloor>x / 2\<rfloor> < \<lfloor>x\<rfloor>"
    by simp
  from big have "1 \<le> x"
    by simp
  then have "0 < \<lfloor>x\<rfloor>"
    by simp
  with less show "((x / 2, e + 1), (x, e)) \<in> measure (\<lambda>(x, e). nat \<lfloor>x\<rfloor>)"
    by simp
qed

function scale_up :: "rat \<Rightarrow> int \<Rightarrow> rat \<times> int" where
  \<comment> \<open>Double up to \<open>2^52\<close>, the exponent not below that of the subnormal doubles.\<close>
  "scale_up x e = (if x < 2 ^ 52 \<and> - 1074 < e then scale_up (x * 2) (e - 1) else (x, e))"
  by pat_completeness auto
termination
  by (relation "measure (\<lambda>(x, e). nat (e + 1074))") auto

declare scale_down.simps [simp del] scale_up.simps [simp del]

definition pow2 :: "int \<Rightarrow> rat" where
  "pow2 e = (if 0 \<le> e then 2 ^ nat e else 1 / 2 ^ nat (- e))"

definition round_double :: "rat \<Rightarrow> rat" where
  \<comment> \<open>The double nearest to \<open>x\<close>: the mantissa rounded half to even at the exponent
      of \<open>x\<close>.\<close>
  "round_double x =
     (case scale_down \<bar>x\<bar> 0 of (y, e) \<Rightarrow>
        case scale_up y e of (z, q) \<Rightarrow> sgn x * of_int (py_round z) * pow2 q)"

definition int_to_float :: "nat \<Rightarrow> rat" where
  \<comment> \<open>The conversion of the left operand of \<open>int * float\<close>.\<close>
  "int_to_float n = round_double (of_nat n)"

definition float_mul :: "rat \<Rightarrow> rat \<Rightarrow> rat" where
  \<comment> \<open>\<open>a * b\<close> on floats\<close>
  "float_mul a b = round_double (a * b)"

definition double_finite :: "rat \<Rightarrow> bool" where
  \<comment> \<open>The result of a float operation is a finite double.\<close>
  "double_finite x = (\<bar>x\<bar> < 2 ^ 1024)"

section \<open>LoadDNADataset\<close>

text \<open>
  \<open>max_sen_len\<close> is \<open>None\<close>, an integer, or the string \<open>'same'\<close>. The rates are finite
  Python floats, each given by its exact value.
\<close>

datatype sen_len = LenNone | LenInt int | LenSame

record LoadDNADataset =
  vocab :: Vocab
  PAD_IDX :: int
  SEP_IDX :: pyval
  CLS_IDX :: pyval
  MASK_IDS :: pyval
  batch_size :: int
  max_sen_len :: sen_len
  max_position_embeddings :: int
  masked_rate :: rat
  masked_token_rate :: rat
  masked_token_unchanged_rate :: rat
  random_state :: int
  inital_site :: int
  number_of_group :: int

definition LoadDNADataset_init ::
  "string list \<Rightarrow> int \<Rightarrow> sen_len \<Rightarrow> int \<Rightarrow> int \<Rightarrow> int \<Rightarrow> rat \<Rightarrow> rat \<Rightarrow> rat \<Rightarrow> int \<Rightarrow> int
     \<Rightarrow> py_error + LoadDNADataset" where
  \<comment> \<open>\<open>LoadDNADataset.__init__\<close>; the first argument is the content of \<open>vocab_path\<close>.\<close>
  "LoadDNADataset_init vocab_lines bs msl mpe pad_index rs mr mtr mtur isite ngroup =
     (let v = Vocab_init vocab_lines
      in case Vocab_getitem v ''[SEP]'' of Inl e \<Rightarrow> Inl e | Inr sep \<Rightarrow>
         case Vocab_getitem v ''[CLS]'' of Inl e \<Rightarrow> Inl e | Inr cls \<Rightarrow>
         case Vocab_getitem v ''[MASK]'' of Inl e \<Rightarrow> Inl e | Inr msk \<Rightarrow>
           Inr \<lparr>vocab = v, PAD_IDX = pad_index, SEP_IDX = sep, CLS_IDX = cls, MASK_IDS = msk,
                batch_size = bs, max_sen_len = msl, max_position_embeddings = mpe,
                masked_rate = mr, masked_token_rate = mtr, masked_token_unchanged_rate = mtur,
                random_state = rs, inital_site = isite, number_of_group = ngroup\<rparr>)"

definition vocab_size :: "LoadDNADataset \<Rightarrow> int" where
  \<comment> \<open>\<open>len(self.vocab.stoi)\<close>\<close>
  "vocab_size c = int (length (stoi (vocab c)))"

subsection \<open>The masking engine\<close>

definition masked_token :: "LoadDNADataset \<Rightarrow> pyval \<Rightarrow> rng \<Rightarrow> py_error + (pyval \<times> rng)" where
  \<comment> \<open>The draws of one loop iteration: the value written at a position holding \<open>orig\<close>.\<close>
  "masked_token c orig g =
     (case random_random g of (rand_t, g1) \<Rightarrow>
        if rand_t < masked_token_rate c then Inr (MASK_IDS c, g1)
        else case random_random g1 of (r2, g2) \<Rightarrow>
          if masked_token_unchanged_rate c < r2
          then (case random_randint 0 (vocab_size c - 1) g2 of
                  Inl e \<Rightarrow> Inl e
                | Inr (v, g3) \<Rightarrow> Inr (PyInt v, g3))
          else Inr (orig, g2))"

fun replace_loop ::
  "LoadDNADataset \<Rightarrow> pyval list \<Rightarrow> int \<Rightarrow> nat list \<Rightarrow> nat list \<Rightarrow> pyval list \<Rightarrow> rng
     \<Rightarrow> py_error + (nat list \<times> pyval list \<times> rng)" where
  \<comment> \<open>The \<open>for\<close> loop of \<open>replace_masked_tokens\<close> over the candidates left, with
      \<open>pred_positions\<close>, \<open>mlm_input_tokens_id\<close> and the generator as loop state.\<close>
  "replace_loop c token_ids num_mlm_preds [] pred_positions mlm_input g =
     Inr (pred_positions, mlm_input, g)"
| "replace_loop c token_ids num_mlm_preds (p # ps) pred_positions mlm_input g =
     (if num_mlm_preds \<le> int (length pred_positions) then Inr (pred_positions, mlm_input, g)
      else if length token_ids \<le> p then Inl IndexError
      else case masked_token c (token_ids ! p) g of
             Inl e \<Rightarrow> Inl e
           | Inr (masked_token_id, g') \<Rightarrow>
               replace_loop c token_ids num_mlm_preds ps (pred_positions @ [p])
                 (mlm_input[p := masked_token_id]) g')"

definition mlm_label_of :: "LoadDNADataset \<Rightarrow> pyval list \<Rightarrow> nat list \<Rightarrow> pyval list" where
  \<comment> \<open>The list comprehension that builds \<open>mlm_label\<close>.\<close>
  "mlm_label_of c token_ids pred_positions =
     map (\<lambda>idx. if idx \<notin> set pred_positions then PyInt (PAD_IDX c) else token_ids ! idx)
       [0..<length token_ids]"

definition replace_masked_tokens ::
  "LoadDNADataset \<Rightarrow> pyval list \<Rightarrow> nat list \<Rightarrow> int \<Rightarrow> rng
     \<Rightarrow> py_error + ((pyval list \<times> pyval list) \<times> rng)" where
  "replace_masked_tokens c token_ids candidate_pred_positions num_mlm_preds g =
     (case replace_loop c token_ids num_mlm_preds candidate_pred_positions [] token_ids g of
        Inl e \<Rightarrow> Inl e
      | Inr (pred_positions, mlm_input_tokens_id, g') \<Rightarrow>
          Inr ((mlm_input_tokens_id, mlm_label_of c token_ids pred_positions), g'))"

definition candidates :: "LoadDNADataset \<Rightarrow> pyval list \<Rightarrow> nat list" where
  \<comment> \<open>The indices appended to \<open>candidate_pred_positions\<close>, before the shuffle.\<close>
  "candidates c token_ids =
     map fst (filter (\<lambda>(i, ids). ids \<notin> set [CLS_IDX c, SEP_IDX c]) (enumerate 0 token_ids))"

definition len_times_rate :: "LoadDNADataset \<Rightarrow> pyval list \<Rightarrow> rat" where
  \<comment> \<open>\<open>len(token_ids) * self.masked_rate\<close>, a float product\<close>
  "len_times_rate c token_ids = float_mul (int_to_float (length token_ids)) (masked_rate c)"

definition num_preds :: "LoadDNADataset \<Rightarrow> pyval list \<Rightarrow> int" where
  \<comment> \<open>\<open>max(1, round(len(token_ids) * self.masked_rate))\<close>\<close>
  "num_preds c token_ids = max 1 (py_round (len_times_rate c token_ids))"

definition get_masked_sample ::
  "LoadDNADataset \<Rightarrow> pyval list \<Rightarrow> rng \<Rightarrow> py_error + ((pyval list \<times> pyval list) \<times> rng)" where
  "get_masked_sample c token_ids g =
     (case random_shuffle (candidates c token_ids) g of
        (candidate_pred_positions, g1) \<Rightarrow>
          replace_masked_tokens c token_ids candidate_pred_positions (num_preds c token_ids) g1)"

definition committed :: "LoadDNADataset \<Rightarrow> pyval list \<Rightarrow> rng \<Rightarrow> nat list" where
  \<comment> \<open>\<open>pred_positions\<close> at the end of the loop that \<open>get_masked_sample\<close> runs: the
      positions committed for masking.\<close>
  "committed c token_ids g =
     (case random_shuffle (candidates c token_ids) g of
        (candidate_pred_positions, g1) \<Rightarrow>
          (case replace_loop c token_ids (num_preds c token_ids) candidate_pred_positions []
                  token_ids g1 of
             Inl e \<Rightarrow> []
           | Inr (pred_positions, mlm_input_tokens_id, g') \<Rightarrow> pred_positions))"

definition count_labels :: "LoadDNADataset \<Rightarrow> pyval list \<Rightarrow> nat" where
  \<comment> \<open>The number of label positions with a label other than \<open>PAD_IDX\<close>.\<close>
  "count_labels c mlm_label = length (filter (\<lambda>l. l \<noteq> PyInt (PAD_IDX c)) mlm_label)"

section \<open>Tensors and the batch collator\<close>

text \<open>
  A one-dimensional tensor of longs is an \<open>int list\<close>. A two-dimensional tensor carries
  its shape, so that a dimension of size 0 keeps the other one: \<open>rows x ! i ! j\<close> is the
  element at \<open>[i][j]\<close>.
\<close>

record 'a tensor2 =
  dim0 :: nat
  dim1 :: nat
  rows :: "'a list list"

definition tensor_long :: "pyval list \<Rightarrow> int list option" where
  \<comment> \<open>\<open>torch.tensor(xs, dtype=torch.long)\<close>; \<open>None\<close> where an element is no integer.\<close>
  "tensor_long xs =
     (if PyNone \<in> set xs then None else Some (map (\<lambda>x. case x of PyInt i \<Rightarrow> i | PyNone \<Rightarrow> 0) xs))"

definition transpose01 :: "'a tensor2 \<Rightarrow> 'a tensor2" where
  \<comment> \<open>\<open>x.transpose(0, 1)\<close>\<close>
  "transpose01 x =
     \<lparr>dim0 = dim1 x, dim1 = dim0 x, rows = map (\<lambda>j. map (\<lambda>r. r ! j) (rows x)) [0..<dim1 x]\<rparr>"

definition tensor_eq_scalar :: "int tensor2 \<Rightarrow> int \<Rightarrow> bool tensor2" where
  \<comment> \<open>\<open>x == v\<close>, elementwise\<close>
  "tensor_eq_scalar x v = \<lparr>dim0 = dim0 x, dim1 = dim1 x, rows = map (map (\<lambda>e. e = v)) (rows x)\<rparr>"

definition torch_stack_dim1 :: "int list list \<Rightarrow> py_error + int tensor2" where
  \<comment> \<open>\<open>torch.stack(ts, dim=1)\<close>: needs a non-empty list of tensors of one size.\<close>
  "torch_stack_dim1 ts =
     (if ts = [] then Inl RuntimeError
      else if \<not> list_all (\<lambda>t. length t = length (hd ts)) ts then Inl RuntimeError
      else Inr \<lparr>dim0 = length (hd ts), dim1 = length ts,
                rows = map (\<lambda>i. map (\<lambda>t. t ! i) ts) [0..<length (hd ts)]\<rparr>)"

definition slice_to :: "int \<Rightarrow> 'a list \<Rightarrow> 'a list" where
  \<comment> \<open>\<open>tensor[:m]\<close>; a negative \<open>m\<close> counts from the end.\<close>
  "slice_to m t = (if 0 \<le> m then take (nat m) t else take (nat (int (length t) + m)) t)"

definition pad_one :: "int \<Rightarrow> int \<Rightarrow> int list \<Rightarrow> int list" where
  \<comment> \<open>The body of the loop of \<open>pad_sequence\<close>.\<close>
  "pad_one max_len padding_value tensor =
     (if int (length tensor) < max_len
      then tensor @ replicate (nat (max_len - int (length tensor))) padding_value
      else slice_to max_len tensor)"

definition max_size :: "int list list \<Rightarrow> int" where
  \<comment> \<open>\<open>max([s.size(0) for s in sequences])\<close> on a non-empty list\<close>
  "max_size sequences = fold max (map (\<lambda>s. int (length s)) (tl sequences)) (int (length (hd sequences)))"

definition pad_to :: "int list list \<Rightarrow> bool \<Rightarrow> int \<Rightarrow> int \<Rightarrow> py_error + int tensor2" where
  \<comment> \<open>\<open>pad_sequence\<close> from the loop on, \<open>max_len\<close> an integer.\<close>
  "pad_to sequences batch_first max_len padding_value =
     (case torch_stack_dim1 (map (pad_one max_len padding_value) sequences) of
        Inl e \<Rightarrow> Inl e
      | Inr out_tensors \<Rightarrow> Inr (if batch_first then transpose01 out_tensors else out_tensors))"

definition pad_sequence :: "int list list \<Rightarrow> bool \<Rightarrow> sen_len \<Rightarrow> int \<Rightarrow> py_error + int tensor2" where
  \<comment> \<open>\<open>max\<close> of no sizes raises \<open>ValueError\<close>; comparing a size with \<open>'same'\<close> raises
      \<open>TypeError\<close> at the first tensor.\<close>
  "pad_sequence sequences batch_first max_len padding_value =
     (case max_len of
        LenNone \<Rightarrow>
          if sequences = [] then Inl ValueError
          else pad_to sequences batch_first (max_size sequences) padding_value
      | LenInt m \<Rightarrow> pad_to sequences batch_first m padding_value
      | LenSame \<Rightarrow> if sequences = [] then Inl RuntimeError else Inl TypeError)"

definition generate_batch ::
  "LoadDNADataset \<Rightarrow> (int list \<times> int list) list
     \<Rightarrow> py_error + (int tensor2 \<times> bool tensor2 \<times> int tensor2)" where
  "generate_batch c data_batch =
     (case pad_sequence (map fst data_batch) False (max_sen_len c) (PAD_IDX c) of
        Inl e \<Rightarrow> Inl e
      | Inr b_token_ids \<Rightarrow>
          (case pad_sequence (map snd data_batch) False (max_sen_len c) (PAD_IDX c) of
             Inl e \<Rightarrow> Inl e
           | Inr b_mlm_label \<Rightarrow>
               Inr (b_token_ids, transpose01 (tensor_eq_scalar b_token_ids (PAD_IDX c)),
                    b_mlm_label)))"

definition target_len :: "sen_len \<Rightarrow> int list list \<Rightarrow> nat" where
  \<comment> \<open>The length \<open>T\<close>: the configured one, else the longest sample's.\<close>
  "target_len max_len sequences =
     (case max_len of LenInt m \<Rightarrow> nat m | _ \<Rightarrow> Max (length ` set sequences))"

definition padded :: "int \<Rightarrow> int list \<Rightarrow> nat \<Rightarrow> int" where
  \<comment> \<open>Element \<open>t\<close> of a sample padded on the right, or cut, to a length above \<open>t\<close>.\<close>
  "padded padding_value s t = (if t < length s then s ! t else padding_value)"

definition right_pad :: "nat \<Rightarrow> int \<Rightarrow> int list \<Rightarrow> int list" where
  \<comment> \<open>A sample cut to \<open>T\<close> elements if longer, padded on the right to \<open>T\<close> if shorter.\<close>
  "right_pad T padding_value s = take T s @ replicate (T - length s) padding_value"

section \<open>Evaluation\<close>

record 'a tensor3 =
  size0 :: nat
  size1 :: nat
  size2 :: nat
  cells :: "'a list list list"

fun argmax_from :: "rat list \<Rightarrow> nat \<Rightarrow> rat \<Rightarrow> nat \<Rightarrow> nat" where
  \<comment> \<open>The scan behind \<open>argmax\<close>: the best value so far and its index.\<close>
  "argmax_from [] i best best_i = best_i"
| "argmax_from (x # xs) i best best_i =
     (if best < x then argmax_from xs (Suc i) x i else argmax_from xs (Suc i) best best_i)"

definition argmax :: "rat list \<Rightarrow> nat" where
  \<comment> \<open>The index of the first maximal value.\<close>
  "argmax xs = (case xs of [] \<Rightarrow> 0 | x # r \<Rightarrow> argmax_from r 1 x 0)"

definition broadcast2 :: "('a \<Rightarrow> 'b \<Rightarrow> 'c) \<Rightarrow> 'a list \<Rightarrow> 'b list \<Rightarrow> py_error + 'c list" where
  \<comment> \<open>An elementwise operation on one-dimensional tensors: sizes equal, or one of them 1.\<close>
  "broadcast2 f xs ys =
     (if length xs = length ys then Inr (map2 f xs ys)
      else if length xs = 1 then Inr (map (f (hd xs)) ys)
      else if length ys = 1 then Inr (map (\<lambda>x. f x (hd ys)) xs)
      else Inl RuntimeError)"

definition count_true :: "bool list \<Rightarrow> nat" where
  \<comment> \<open>\<open>x.sum().item()\<close> on a tensor of booleans\<close>
  "count_true bs = length (filter (\<lambda>b. b) bs)"

definition accuracy :: "rat tensor3 \<Rightarrow> int tensor2 \<Rightarrow> int \<Rightarrow> py_error + (rat \<times> nat \<times> nat)" where
  \<comment> \<open>Logits are compared only, so they are taken as rationals; \<open>argmax\<close> over an empty
      axis raises.\<close>
  "accuracy mlm_logits mlm_labels pad =
     (if size2 mlm_logits = 0 then Inl IndexError
      else
        let mlm_pred = concat (map (\<lambda>b. map (\<lambda>t. int (argmax (cells mlm_logits ! t ! b)))
                                          [0..<size0 mlm_logits]) [0..<size1 mlm_logits]);
            mlm_true = concat (rows (transpose01 mlm_labels))
        in case broadcast2 (\<lambda>p t. p = t) mlm_pred mlm_true of
             Inl e \<Rightarrow> Inl e
           | Inr mlm_acc \<Rightarrow>
               let mask = map (\<lambda>t. \<not> (t = pad)) mlm_true
               in case broadcast2 (\<lambda>a m. a \<and> m) mlm_acc mask of
                    Inl e \<Rightarrow> Inl e
                  | Inr mlm_acc' \<Rightarrow>
                      let mlm_correct = count_true mlm_acc'; mlm_total = count_true mask
                      in if mlm_total = 0 then Inl ZeroDivisionError
                         else Inr (of_nat mlm_correct / of_nat mlm_total, mlm_correct, mlm_total))"

definition wf_tensor2 :: "'a tensor2 \<Rightarrow> bool" where
  \<comment> \<open>The rows agree with the shape.\<close>
  "wf_tensor2 x = (length (rows x) = dim0 x \<and> list_all (\<lambda>r. length r = dim1 x) (rows x))"

definition wf_tensor3 :: "'a tensor3 \<Rightarrow> bool" where
  \<comment> \<open>The cells agree with the shape.\<close>
  "wf_tensor3 x =
     (length (cells x) = size0 x \<and>
      list_all (\<lambda>m. length m = size1 x \<and> list_all (\<lambda>r. length r = size2 x) m) (cells x))"

definition labels_of :: "int tensor2 \<Rightarrow> int list" where
  \<comment> \<open>All the labels of a batch.\<close>
  "labels_of x = concat (rows x)"

definition first_max :: "rat list \<Rightarrow> nat \<Rightarrow> bool" where
  \<comment> \<open>\<open>i\<close> is the index of the first maximal value of \<open>xs\<close>.\<close>
  "first_max xs i =
     (i < length xs \<and> list_all (\<lambda>x. x \<le> xs ! i) xs \<and> list_all (\<lambda>x. x < xs ! i) (take i xs))"

definition labelled_at :: "int tensor2 \<Rightarrow> int \<Rightarrow> nat \<times> nat \<Rightarrow> bool" where
  \<comment> \<open>The label of sample \<open>b\<close> at position \<open>t\<close> differs from \<open>pad\<close>.\<close>
  "labelled_at mlm_labels pad = (\<lambda>(b, t). rows mlm_labels ! t ! b \<noteq> pad)"

definition correct_at :: "rat tensor3 \<Rightarrow> int tensor2 \<Rightarrow> int \<Rightarrow> nat \<times> nat \<Rightarrow> bool" where
  \<comment> \<open>The label of sample \<open>b\<close> at position \<open>t\<close> differs from \<open>pad\<close> and is the index
      of the first maximal logit there: a correct prediction.\<close>
  "correct_at mlm_logits mlm_labels pad =
     (\<lambda>(b, t). rows mlm_labels ! t ! b \<noteq> pad \<and> 0 \<le> rows mlm_labels ! t ! b \<and>
        first_max (cells mlm_logits ! t ! b) (nat (rows mlm_labels ! t ! b)))"

definition positions :: "int tensor2 \<Rightarrow> (nat \<times> nat) list" where
  \<comment> \<open>Every (sample, position) of a batch of labels, once.\<close>
  "positions mlm_labels = List.product [0..<dim1 mlm_labels] [0..<dim0 mlm_labels]"

definition labelled_total :: "int tensor2 \<Rightarrow> int \<Rightarrow> nat" where
  \<comment> \<open>The count of positions whose label differs from \<open>pad\<close>.\<close>
  "labelled_total mlm_labels pad =
     length (filter (labelled_at mlm_labels pad) (positions mlm_labels))"

definition correct_total :: "rat tensor3 \<Rightarrow> int tensor2 \<Rightarrow> int \<Rightarrow> nat" where
  \<comment> \<open>The count of correct predictions.\<close>
  "correct_total mlm_logits mlm_labels pad =
     length (filter (correct_at mlm_logits mlm_labels pad) (positions mlm_labels))"

section \<open>The cache\<close>

text \<open>
  The files are a map from path to stored dataset. \<open>str\<close> on integers is the decimal
  rendering; \<open>str\<close> on floats is a parameter of the key.
\<close>

definition cache_data_path :: "string \<Rightarrow> string \<Rightarrow> string" where
  \<comment> \<open>\<open>filepath.split('.')[0] + '_' + postfix + '.pt'\<close>\<close>
  "cache_data_path filepath postfix =
     takeWhile (\<lambda>c. c \<noteq> CHR ''.'') filepath @ ''_'' @ postfix @ ''.pt''"

definition cache :: "'d \<Rightarrow> string \<Rightarrow> string \<Rightarrow> (string \<rightharpoonup> 'd) \<Rightarrow> 'd \<times> (string \<rightharpoonup> 'd)" where
  \<comment> \<open>The wrapper of the decorator, on the files that exist: \<open>computed\<close> is what the wrapped
      function returns for these arguments, stored when no file of that name exists.\<close>
  "cache computed filepath postfix files =
     (let data_path = cache_data_path filepath postfix
      in case files data_path of
           None \<Rightarrow> (computed, files(data_path \<mapsto> computed))
         | Some data \<Rightarrow> (data, files))"

function str_nat :: "nat \<Rightarrow> string" where
  \<comment> \<open>The decimal digits of a natural number.\<close>
  "str_nat n =
     (if n < 10 then [''0123456789'' ! n]
      else str_nat (n div 10) @ [''0123456789'' ! (n mod 10)])"
  by pat_completeness auto
termination
  by (relation "measure id") auto

declare str_nat.simps [simp del]

definition str_int :: "int \<Rightarrow> string" where
  \<comment> \<open>\<open>str\<close> of a Python integer\<close>
  "str_int i = (if i < 0 then ''-'' @ str_nat (nat (- i)) else str_nat (nat i))"

definition str_sen_len :: "sen_len \<Rightarrow> string" where
  \<comment> \<open>\<open>max_sen_len\<close> as the f-string renders it\<close>
  "str_sen_len l = (case l of LenNone \<Rightarrow> ''None'' | LenInt m \<Rightarrow> str_int m | LenSame \<Rightarrow> ''same'')"

definition param_postfix :: "(rat \<Rightarrow> string) \<Rightarrow> LoadDNADataset \<Rightarrow> string" where
  \<comment> \<open>The f-string of \<open>load_train_val_test_data\<close>; \<open>str_float\<close> is \<open>str\<close> on floats.\<close>
  "param_postfix str_float c =
     ''_ml'' @ str_sen_len (max_sen_len c) @ ''_rs'' @ str_int (random_state c) @
     ''_mr'' @ drop 2 (str_float (masked_rate c)) @
     ''_mtr'' @ drop 2 (str_float (masked_token_rate c)) @
     ''_mtur'' @ drop 2 (str_float (masked_token_unchanged_rate c))"

definition cache_key :: "(rat \<Rightarrow> string) \<Rightarrow> LoadDNADataset \<Rightarrow> string \<Rightarrow> string \<Rightarrow> string" where
  \<comment> \<open>The cache file of \<open>data_process(filepath=..., postfix=split + postfix)\<close>.\<close>
  "cache_key str_float c split filepath =
     cache_data_path filepath (split @ param_postfix str_float c)"

definition float_repr :: "rat \<Rightarrow> string" where
  \<comment> \<open>\<open>str\<close> on the floats 0.15, 0.8, 0.5, 0.0 and 1.0; the empty string stands for the
      renderings that the examples do not use.\<close>
  "float_repr r =
     (if r = round_double (15 / 100) then ''0.15''
      else if r = round_double (8 / 10) then ''0.8''
      else if r = 1 / 2 then ''0.5''
      else if r = 0 then ''0.0''
      else if r = 1 then ''1.0'' else [])"

section \<open>Predicates and examples used in the statements\<close>

definition ok_value :: "LoadDNADataset \<Rightarrow> pyval \<Rightarrow> pyval \<Rightarrow> bool" where
  \<comment> \<open>The values a committed position may hold: the original token, the \<open>[MASK]\<close> ID or
      an integer of \<open>[0, vocab_size)\<close>.\<close>
  "ok_value c orig v =
     (v = orig \<or> v = MASK_IDS c \<or> (\<exists>r. 0 \<le> r \<and> r < vocab_size c \<and> v = PyInt r))"

text \<open>
  Two vocabulary files, each with the parameter defaults of \<open>LoadDNADataset.__init__\<close>:
  the one with the reserved symbols first, and one whose line 0 is a data symbol. The
  rates are the doubles that the literals \<open>0.15\<close>, \<open>0.8\<close> and \<open>0.5\<close> denote.
\<close>

definition dna_vocab :: "string list" where
  "dna_vocab = [''[PAD]'', ''[UNK]'', ''[CLS]'', ''[SEP]'', ''[MASK]'', ''A'', ''C'', ''G'', ''T'']"

definition dna_dataset :: LoadDNADataset where
  "dna_dataset =
     \<lparr>vocab = Vocab_init dna_vocab, PAD_IDX = 0, SEP_IDX = PyInt 3, CLS_IDX = PyInt 2,
      MASK_IDS = PyInt 4, batch_size = 24, max_sen_len = LenNone,
      max_position_embeddings = 512, masked_rate = round_double (15 / 100),
      masked_token_rate = round_double (8 / 10),
      masked_token_unchanged_rate = 1 / 2, random_state = 2022, inital_site = 0,
      number_of_group = 1\<rparr>"

definition acgt_vocab :: "string list" where
  "acgt_vocab = [''A'', ''C'', ''G'', ''T'', ''[UNK]'', ''[CLS]'', ''[SEP]'', ''[MASK]'']"

definition acgt_dataset :: LoadDNADataset where
  "acgt_dataset =
     \<lparr>vocab = Vocab_init acgt_vocab, PAD_IDX = 0, SEP_IDX = PyInt 6, CLS_IDX = PyInt 5,
      MASK_IDS = PyInt 7, batch_size = 24, max_sen_len = LenNone,
      max_position_embeddings = 512, masked_rate = round_double (15 / 100),
      masked_token_rate = round_double (8 / 10),
      masked_token_unchanged_rate = 1 / 2, random_state = 2022, inital_site = 0,
      number_of_group = 1\<rparr>"

section \<open>Vocab: what loading establishes\<close>

lemma last_index_unique:
  "last_index ws w i \<Longrightarrow> last_index ws w j \<Longrightarrow> i = j"
proof (rule ccontr)
  assume a: "last_index ws w i" and b: "last_index ws w j" and ne: "i \<noteq> j"
  have drop_mem: "\<And>p q. p < q \<Longrightarrow> q < length ws \<Longrightarrow> ws ! q \<in> set (drop (Suc p) ws)"
  proof -
    fix p q :: nat
    assume "p < q" "q < length ws"
    then have "drop (Suc p) ws ! (q - Suc p) = ws ! q" "q - Suc p < length (drop (Suc p) ws)"
      by auto
    then show "ws ! q \<in> set (drop (Suc p) ws)"
      by (metis nth_mem)
  qed
  from ne consider "i < j" | "j < i" by linarith
  then show False
  proof cases
    case 1
    with a b drop_mem [of i j] show False by (auto simp: last_index_def)
  next
    case 2
    with a b drop_mem [of j i] show False by (auto simp: last_index_def)
  qed
qed

lemma last_index_snoc_same: "last_index (ws @ [w]) w i \<longleftrightarrow> i = length ws"
proof
  assume a: "last_index (ws @ [w]) w i"
  have "last_index (ws @ [w]) w (length ws)"
    by (simp add: last_index_def)
  with a show "i = length ws"
    by (rule last_index_unique)
next
  assume "i = length ws"
  then show "last_index (ws @ [w]) w i"
    by (simp add: last_index_def)
qed

lemma last_index_snoc_other:
  assumes "w' \<noteq> w"
  shows "last_index (ws @ [w]) w' i \<longleftrightarrow> last_index ws w' i"
proof (cases "i < length ws")
  case True
  then show ?thesis
    using assms by (auto simp: last_index_def nth_append)
next
  case False
  then show ?thesis
    using assms by (auto simp: last_index_def nth_append less_Suc_eq)
qed

lemma vocab_inv_step:
  assumes "vocab_inv v"
  shows "vocab_inv \<lparr>stoi = AList.update w (length (itos v)) (stoi v), itos = itos v @ [w]\<rparr>"
proof -
  have d: "distinct (map fst (AList.update w (length (itos v)) (stoi v)))"
    using assms by (simp add: vocab_inv_def distinct_update)
  have s: "set (map fst (AList.update w (length (itos v)) (stoi v))) = set (itos v @ [w])"
    using assms by (auto simp: vocab_inv_def dom_update)
  have m: "map_of (AList.update w (length (itos v)) (stoi v)) w' = Some i
             \<longleftrightarrow> last_index (itos v @ [w]) w' i" for w' i
  proof (cases "w' = w")
    case True
    then show ?thesis
      by (auto simp: update_conv' last_index_snoc_same)
  next
    case False
    then show ?thesis
      using assms by (simp add: update_conv' last_index_snoc_other vocab_inv_def)
  qed
  show ?thesis
    unfolding vocab_inv_def using d s m by simp
qed

lemma Vocab_load_inv:
  "vocab_inv v \<Longrightarrow> vocab_inv (Vocab_load (enumerate (length (itos v)) ls) v)"
proof (induction ls arbitrary: v)
  case Nil
  then show ?case by simp
next
  case (Cons l ls)
  let ?v = "\<lparr>stoi = AList.update (strip_nl l) (length (itos v)) (stoi v),
             itos = itos v @ [strip_nl l]\<rparr>"
  have "vocab_inv ?v"
    using Cons.prems by (rule vocab_inv_step)
  from Cons.IH [OF this] show ?case
    by simp
qed

lemma Vocab_load_itos:
  "itos (Vocab_load (enumerate n ls) v) = itos v @ map strip_nl ls"
  by (induction ls arbitrary: n v) simp_all

lemma Vocab_init_itos: "itos (Vocab_init ls) = map strip_nl ls"
  by (simp add: Vocab_init_def Vocab_load_itos)

lemma Vocab_init_inv: "vocab_inv (Vocab_init ls)"
proof -
  have "vocab_inv \<lparr>stoi = [], itos = []\<rparr>"
    by (simp add: vocab_inv_def last_index_def)
  from Vocab_load_inv [OF this] show ?thesis
    by (simp add: Vocab_init_def)
qed

lemma Vocab_init_stoi:
  "map_of (stoi (Vocab_init ls)) w = Some i \<longleftrightarrow> last_index (itos (Vocab_init ls)) w i"
  using Vocab_init_inv [of ls] by (simp add: vocab_inv_def)

lemma Vocab_init_known:
  "map_of (stoi (Vocab_init ls)) w = None \<longleftrightarrow> w \<notin> set (itos (Vocab_init ls))"
proof -
  have "set (map fst (stoi (Vocab_init ls))) = set (itos (Vocab_init ls))"
    using Vocab_init_inv [of ls] by (simp add: vocab_inv_def)
  then show ?thesis
    by (metis map_of_eq_None_iff set_map)
qed

lemma last_index_distinct:
  "distinct ws \<Longrightarrow> i < length ws \<Longrightarrow> last_index ws (ws ! i) i"
  unfolding last_index_def
  by (metis Cons_nth_drop_Suc distinct.simps(2) distinct_drop)

text \<open>
  Claim C5, as the code has it. A symbol present in the vocabulary file is looked up to
  its ID, the index of the last line holding it. An absent symbol is looked up to the ID
  of \<open>[UNK]\<close> when the file has \<open>[UNK]\<close>. When the symbol is absent and \<open>[UNK]\<close>
  is missing too, the lookup returns \<open>None\<close>: it raises in none of the three cases.
\<close>

theorem Vocab_lookup_cases:
  "(token \<in> set (itos (Vocab_init ls)) \<longrightarrow>
      (\<exists>i. last_index (itos (Vocab_init ls)) token i \<and>
           Vocab_getitem (Vocab_init ls) token = Inr (PyInt (int i)))) \<and>
   (token \<notin> set (itos (Vocab_init ls)) \<and> UNK \<in> set (itos (Vocab_init ls)) \<longrightarrow>
      (\<exists>u. last_index (itos (Vocab_init ls)) UNK u \<and>
           Vocab_getitem (Vocab_init ls) token = Inr (PyInt (int u)))) \<and>
   (token \<notin> set (itos (Vocab_init ls)) \<and> UNK \<notin> set (itos (Vocab_init ls)) \<longrightarrow>
      Vocab_getitem (Vocab_init ls) token = Inr PyNone)"
proof -
  let ?v = "Vocab_init ls"
  have known: "\<exists>i. last_index (itos ?v) w i \<and> map_of (stoi ?v) w = Some i"
    if "w \<in> set (itos ?v)" for w
  proof -
    from that have "map_of (stoi ?v) w \<noteq> None"
      by (simp add: Vocab_init_known)
    then obtain i where "map_of (stoi ?v) w = Some i"
      by blast
    then show ?thesis
      by (auto simp: Vocab_init_stoi)
  qed
  have absent: "map_of (stoi ?v) w = None" if "w \<notin> set (itos ?v)" for w
    using that by (simp add: Vocab_init_known)
  have a: "token \<in> set (itos ?v) \<longrightarrow>
      (\<exists>i. last_index (itos ?v) token i \<and> Vocab_getitem ?v token = Inr (PyInt (int i)))"
    using known [of token] by (auto simp: Vocab_getitem_def stoi_get_def)
  have b: "token \<notin> set (itos ?v) \<and> UNK \<in> set (itos ?v) \<longrightarrow>
      (\<exists>u. last_index (itos ?v) UNK u \<and> Vocab_getitem ?v token = Inr (PyInt (int u)))"
    using known [of UNK] absent [of token] by (auto simp: Vocab_getitem_def stoi_get_def)
  have c: "token \<notin> set (itos ?v) \<and> UNK \<notin> set (itos ?v) \<longrightarrow>
      Vocab_getitem ?v token = Inr PyNone"
    using absent [of UNK] absent [of token] by (auto simp: Vocab_getitem_def stoi_get_def)
  from a b c show ?thesis by blast
qed

lemmas vocab_eval = Vocab_init_def Vocab_getitem_def stoi_get_def UNK_def strip_nl_def
  last_index_def

text \<open>The three cases of the lookup on the files \<open>[UNK], A, C\<close> and \<open>A, C\<close>.\<close>

theorem Vocab_lookup_cases_witness:
  "''A'' \<in> set (itos (Vocab_init [''[UNK]'', ''A'', ''C''])) \<and>
   Vocab_getitem (Vocab_init [''[UNK]'', ''A'', ''C'']) ''A'' = Inr (PyInt 1) \<and>
   ''G'' \<notin> set (itos (Vocab_init [''[UNK]'', ''A'', ''C''])) \<and>
   UNK \<in> set (itos (Vocab_init [''[UNK]'', ''A'', ''C''])) \<and>
   Vocab_getitem (Vocab_init [''[UNK]'', ''A'', ''C'']) ''G'' = Inr (PyInt 0) \<and>
   ''G'' \<notin> set (itos (Vocab_init [''A'', ''C''])) \<and>
   UNK \<notin> set (itos (Vocab_init [''A'', ''C''])) \<and>
   Vocab_getitem (Vocab_init [''A'', ''C'']) ''G'' = Inr PyNone"
  using Vocab_lookup_cases [of "''A''" "[''[UNK]'', ''A'', ''C'']"]
    Vocab_lookup_cases [of "''G''" "[''[UNK]'', ''A'', ''C'']"]
    Vocab_lookup_cases [of "''G''" "[''A'', ''C'']"]
  by (simp add: vocab_eval)

text \<open>
  Claim C5 as stated asks for a fatal failure when the symbol is absent and \<open>[UNK]\<close> is
  missing. On the file \<open>A, C\<close> the lookup of \<open>G\<close> is such a case and returns \<open>None\<close>.
\<close>

theorem Vocab_lookup_fatal_counterexample:
  "''G'' \<notin> set (itos (Vocab_init [''A'', ''C''])) \<and>
   UNK \<notin> set (itos (Vocab_init [''A'', ''C''])) \<and>
   Vocab_getitem (Vocab_init [''A'', ''C'']) ''G'' = Inr PyNone \<and>
   \<not> isl (Vocab_getitem (Vocab_init [''A'', ''C'']) ''G'')"
  by (simp add: vocab_eval)

text \<open>
  Claim C7, as the code has it. When the symbols of the file are pairwise distinct, looking
  up the symbol at a valid index \<open>i\<close> returns \<open>i\<close>. For every vocabulary file, distinct
  or not, a known symbol \<open>s\<close> satisfies \<open>itos[stoi[s]] == s\<close>.
\<close>

theorem Vocab_roundtrip:
  "(distinct (itos (Vocab_init ls)) \<longrightarrow>
      (\<forall>i < Vocab_len (Vocab_init ls).
         Vocab_getitem (Vocab_init ls) (itos (Vocab_init ls) ! i) = Inr (PyInt (int i)))) \<and>
   (\<forall>s k. map_of (stoi (Vocab_init ls)) s = Some k \<longrightarrow>
      k < Vocab_len (Vocab_init ls) \<and> itos (Vocab_init ls) ! k = s)"
proof -
  let ?v = "Vocab_init ls"
  have a: "Vocab_getitem ?v (itos ?v ! i) = Inr (PyInt (int i))"
    if "distinct (itos ?v)" "i < Vocab_len ?v" for i
  proof -
    from that have "last_index (itos ?v) (itos ?v ! i) i"
      by (simp add: Vocab_len_def last_index_distinct)
    then have "map_of (stoi ?v) (itos ?v ! i) = Some i"
      by (simp add: Vocab_init_stoi)
    then show ?thesis
      by (simp add: Vocab_getitem_def stoi_get_def)
  qed
  have b: "k < Vocab_len ?v \<and> itos ?v ! k = s" if "map_of (stoi ?v) s = Some k" for s k
  proof -
    from that have "last_index (itos ?v) s k"
      by (simp add: Vocab_init_stoi)
    then show ?thesis
      by (simp add: last_index_def Vocab_len_def)
  qed
  from a b show ?thesis by blast
qed

text \<open>The round trip on the file \<open>[UNK], A, C\<close>.\<close>

theorem Vocab_roundtrip_witness:
  "distinct (itos (Vocab_init [''[UNK]'', ''A'', ''C''])) \<and>
   (2::nat) < Vocab_len (Vocab_init [''[UNK]'', ''A'', ''C'']) \<and>
   Vocab_getitem (Vocab_init [''[UNK]'', ''A'', ''C''])
     (itos (Vocab_init [''[UNK]'', ''A'', ''C'']) ! 2) = Inr (PyInt 2) \<and>
   map_of (stoi (Vocab_init [''[UNK]'', ''A'', ''C''])) ''A'' = Some 1 \<and>
   itos (Vocab_init [''[UNK]'', ''A'', ''C'']) ! 1 = ''A''"
  using Vocab_roundtrip [of "[''[UNK]'', ''A'', ''C'']"]
  by (simp add: vocab_eval Vocab_len_def)

text \<open>
  Claim C7 as stated covers every loaded vocabulary. On the file \<open>A, A\<close> index 0 is
  valid and the symbol there is looked up to 1: the later line overwrote the ID.
\<close>

theorem Vocab_roundtrip_counterexample:
  "(0::nat) < Vocab_len (Vocab_init [''A'', ''A'']) \<and>
   Vocab_getitem (Vocab_init [''A'', ''A'']) (itos (Vocab_init [''A'', ''A'']) ! 0)
     = Inr (PyInt 1) \<and>
   Vocab_getitem (Vocab_init [''A'', ''A'']) (itos (Vocab_init [''A'', ''A'']) ! 0)
     \<noteq> Inr (PyInt 0)"
  by (simp add: vocab_eval Vocab_len_def)

section \<open>The masking engine\<close>

lemma randbelow_less: "0 < n \<Longrightarrow> fst (randbelow n g) < n"
  by (simp add: randbelow_def split: prod.splits)

lemma shuffle_loop_mset:
  "k < length x \<Longrightarrow> mset (fst (shuffle_loop k x g)) = mset x"
proof (induction k arbitrary: x g)
  case 0
  then show ?case by simp
next
  case (Suc k)
  obtain j g' where r: "randbelow (Suc k + 1) g = (j, g')"
    by (cases "randbelow (Suc k + 1) g")
  have "fst (randbelow (Suc k + 1) g) < Suc k + 1"
    by (rule randbelow_less) simp
  with r Suc.prems have j: "j < length x"
    by simp
  let ?x = "x[Suc k := x ! j, j := x ! Suc k]"
  have "mset ?x = mset x"
    using j Suc.prems by (simp add: mset_swap)
  moreover have "mset (fst (shuffle_loop k ?x g')) = mset ?x"
    using Suc.prems by (intro Suc.IH) simp
  ultimately show ?case
    using r by simp
qed

lemma random_shuffle_mset: "mset (fst (random_shuffle x g)) = mset x"
proof (cases "x = []")
  case True
  then show ?thesis by (simp add: random_shuffle_def)
next
  case False
  then have "length x - 1 < length x" by simp
  then show ?thesis
    unfolding random_shuffle_def by (rule shuffle_loop_mset)
qed

lemma candidates_set:
  "set (candidates c token_ids) =
     {i. i < length token_ids \<and> token_ids ! i \<noteq> CLS_IDX c \<and> token_ids ! i \<noteq> SEP_IDX c}"
  by (auto simp: candidates_def in_set_enumerate_eq image_iff)

lemma candidates_distinct: "distinct (candidates c token_ids)"
  unfolding candidates_def
  by (rule distinct_map_filter) (simp add: map_fst_enumerate)

lemma random_randint_range:
  assumes "random_randint a b g = Inr (v, g')"
  shows "a \<le> v \<and> v \<le> b"
proof -
  from assms have ab: "a \<le> b"
    by (auto simp: random_randint_def split: if_splits)
  then have pos: "0 < nat (b - a + 1)"
    by simp
  from assms ab have v: "v = a + int (fst (randbelow (nat (b - a + 1)) g))"
    by (auto simp: random_randint_def split: prod.splits)
  from randbelow_less [OF pos, of g] have "int (fst (randbelow (nat (b - a + 1)) g)) < b - a + 1"
    by linarith
  with v show ?thesis
    by simp
qed

lemma masked_token_ok:
  assumes "masked_token c orig g = Inr (v, g')"
  shows "ok_value c orig v"
proof -
  obtain rand_t g1 where r1: "random_random g = (rand_t, g1)"
    by (cases "random_random g")
  obtain r2 g2 where r2: "random_random g1 = (r2, g2)"
    by (cases "random_random g1")
  show ?thesis
  proof (cases "rand_t < masked_token_rate c")
    case True
    with assms r1 show ?thesis
      by (simp add: masked_token_def ok_value_def)
  next
    case False
    note nomask = this
    show ?thesis
    proof (cases "masked_token_unchanged_rate c < r2")
      case True
      with assms r1 r2 nomask obtain w where
        w: "random_randint 0 (vocab_size c - 1) g2 = Inr (w, g')" and v: "v = PyInt w"
        by (auto simp: masked_token_def split: sum.splits)
      from random_randint_range [OF w] v show ?thesis
        by (simp add: ok_value_def)
    next
      case False
      with assms r1 r2 nomask show ?thesis
        by (simp add: masked_token_def ok_value_def)
    qed
  qed
qed

lemma masked_token_returns:
  "0 < vocab_size c \<Longrightarrow> \<exists>v g'. masked_token c orig g = Inr (v, g')"
  by (auto simp: masked_token_def random_randint_def split: prod.splits if_splits sum.splits)


lemma replace_loop_result:
  assumes "replace_loop c token_ids n ps pred inp g = Inr (pred', inp', g')"
  shows "pred' = pred @ take (nat (n - int (length pred))) ps \<and> length inp' = length inp"
  using assms
proof (induction ps arbitrary: pred inp g)
  case Nil
  then show ?case by simp
next
  case (Cons p ps)
  show ?case
  proof (cases "n \<le> int (length pred)")
    case True
    with Cons.prems show ?thesis by simp
  next
    case False
    with Cons.prems obtain m g1 where
      m: "masked_token c (token_ids ! p) g = Inr (m, g1)" and
      rec: "replace_loop c token_ids n ps (pred @ [p]) (inp[p := m]) g1 = Inr (pred', inp', g')"
      by (auto split: if_splits sum.splits)
    from Cons.IH [OF rec] have
      "pred' = (pred @ [p]) @ take (nat (n - int (length (pred @ [p])))) ps" and
      len: "length inp' = length inp"
      by simp_all
    moreover from False have "nat (n - int (length pred)) = Suc (nat (n - int (length (pred @ [p]))))"
      by simp
    ultimately show ?thesis
      by simp
  qed
qed

lemma replace_loop_values:
  assumes "replace_loop c token_ids n ps pred inp g = Inr (pred', inp', g')"
    and "length inp = length token_ids"
    and "i < length token_ids"
  shows "if i \<in> set (take (nat (n - int (length pred))) ps)
         then ok_value c (token_ids ! i) (inp' ! i) else inp' ! i = inp ! i"
  using assms(1,2)
proof (induction ps arbitrary: pred inp g)
  case Nil
  then show ?case by simp
next
  case (Cons p ps)
  show ?case
  proof (cases "n \<le> int (length pred)")
    case True
    with Cons.prems show ?thesis by simp
  next
    case False
    with Cons.prems obtain m g1 where
      p: "p < length token_ids" and
      m: "masked_token c (token_ids ! p) g = Inr (m, g1)" and
      rec: "replace_loop c token_ids n ps (pred @ [p]) (inp[p := m]) g1 = Inr (pred', inp', g')"
      by (auto split: if_splits sum.splits)
    let ?rest = "take (nat (n - int (length (pred @ [p])))) ps"
    from False have "nat (n - int (length pred)) = Suc (nat (n - int (length (pred @ [p]))))"
      by simp
    then have tk: "take (nat (n - int (length pred))) (p # ps) = p # ?rest"
      by simp
    have ih: "if i \<in> set ?rest then ok_value c (token_ids ! i) (inp' ! i)
              else inp' ! i = inp[p := m] ! i"
      using Cons.IH [OF rec] Cons.prems(2) by simp
    show ?thesis
    proof (cases "i \<in> set ?rest")
      case True
      with ih tk show ?thesis by simp
    next
      case False
      note notrest = this
      show ?thesis
      proof (cases "i = p")
        case True
        with ih notrest p Cons.prems(2) have "inp' ! i = m" by simp
        with masked_token_ok [OF m] True tk show ?thesis by simp
      next
        case False
        with ih notrest tk show ?thesis by simp
      qed
    qed
  qed
qed

lemma replace_loop_returns:
  assumes "0 < vocab_size c" and "\<forall>p \<in> set ps. p < length token_ids"
  shows "\<exists>r. replace_loop c token_ids n ps pred inp g = Inr r"
  using assms(2)
proof (induction ps arbitrary: pred inp g)
  case Nil
  then show ?case by simp
next
  case (Cons p ps)
  from masked_token_returns [OF assms(1)] obtain m g1 where
    "masked_token c (token_ids ! p) g = Inr (m, g1)"
    by blast
  moreover from Cons have
    "\<exists>r. replace_loop c token_ids n ps (pred @ [p]) (inp[p := m]) g1 = Inr r"
    by simp
  ultimately show ?case
    using Cons.prems by auto
qed



lemma floor_rat_numeral: "\<lfloor>(numeral a :: rat) / numeral b\<rfloor> = numeral a div numeral b"
  using floor_divide_of_int_eq [of "numeral a" "numeral b", where ?'a = rat] by simp

lemmas float_eval = round_double_def scale_down.simps scale_up.simps pow2_def py_round_def
  Let_def floor_rat_numeral int_to_float_def float_mul_def double_finite_def

lemma double_literals:
  "round_double (3 / 20) = 5404319552844595 / 36028797018963968"
  "round_double (4 / 5) = 3602879701896397 / 4503599627370496"
  by (simp_all add: float_eval)

lemma dna_dataset_init:
  "LoadDNADataset_init dna_vocab 24 LenNone 512 0 2022 (round_double (15 / 100))
       (round_double (8 / 10)) (1 / 2) 0 1
     = Inr dna_dataset"
  by (simp add: LoadDNADataset_init_def dna_dataset_def dna_vocab_def Vocab_init_def
      Vocab_getitem_def stoi_get_def UNK_def strip_nl_def)

lemma acgt_dataset_init:
  "LoadDNADataset_init acgt_vocab 24 LenNone 512 0 2022 (round_double (15 / 100))
       (round_double (8 / 10)) (1 / 2) 0 1
     = Inr acgt_dataset"
  by (simp add: LoadDNADataset_init_def acgt_dataset_def acgt_vocab_def Vocab_init_def
      Vocab_getitem_def stoi_get_def UNK_def strip_nl_def)

lemma dna_fields:
  "PAD_IDX dna_dataset = 0" "SEP_IDX dna_dataset = PyInt 3" "CLS_IDX dna_dataset = PyInt 2"
  "MASK_IDS dna_dataset = PyInt 4" "max_sen_len dna_dataset = LenNone"
  "masked_rate dna_dataset = 5404319552844595 / 36028797018963968"
  "masked_token_rate dna_dataset = 3602879701896397 / 4503599627370496"
  "masked_token_unchanged_rate dna_dataset = 1 / 2" "vocab_size dna_dataset = 9"
  "random_state dna_dataset = 2022"
  by (simp_all add: dna_dataset_def vocab_size_def dna_vocab_def Vocab_init_def strip_nl_def
      double_literals)

lemma acgt_fields:
  "PAD_IDX acgt_dataset = 0" "SEP_IDX acgt_dataset = PyInt 6" "CLS_IDX acgt_dataset = PyInt 5"
  "MASK_IDS acgt_dataset = PyInt 7" "max_sen_len acgt_dataset = LenNone"
  "masked_rate acgt_dataset = 5404319552844595 / 36028797018963968"
  "masked_token_rate acgt_dataset = 3602879701896397 / 4503599627370496"
  "masked_token_unchanged_rate acgt_dataset = 1 / 2" "vocab_size acgt_dataset = 8"
  by (simp_all add: acgt_dataset_def vocab_size_def acgt_vocab_def Vocab_init_def strip_nl_def
      double_literals)

lemmas mask_eval = get_masked_sample_def committed_def candidates_def random_shuffle_def
  randbelow_def num_preds_def len_times_rate_def float_eval replace_masked_tokens_def
  masked_token_def random_random_def random_randint_def mlm_label_of_def count_labels_def

lemma get_masked_sample_returns:
  assumes "0 < vocab_size c"
  shows "\<exists>r. get_masked_sample c token_ids g = Inr r"
proof -
  obtain cp g1 where sh: "random_shuffle (candidates c token_ids) g = (cp, g1)"
    by (cases "random_shuffle (candidates c token_ids) g")
  have "mset cp = mset (candidates c token_ids)"
    using random_shuffle_mset [of "candidates c token_ids" g] sh by simp
  then have "set cp = set (candidates c token_ids)"
    by (rule mset_eq_setD)
  then have "\<forall>p \<in> set cp. p < length token_ids"
    by (simp add: candidates_set)
  from replace_loop_returns [OF assms this] obtain r where
    "replace_loop c token_ids (num_preds c token_ids) cp [] token_ids g1 = Inr r"
    by blast
  with sh show ?thesis
    by (cases r) (simp add: get_masked_sample_def replace_masked_tokens_def)
qed

lemma get_masked_sample_run:
  assumes "get_masked_sample c token_ids g = Inr ((mlm_input, mlm_label), g')"
  shows "\<exists>cp. mset cp = mset (candidates c token_ids) \<and>
           committed c token_ids g = take (nat (num_preds c token_ids)) cp \<and>
           mlm_label = mlm_label_of c token_ids (committed c token_ids g) \<and>
           length mlm_input = length token_ids \<and>
           (\<forall>i < length token_ids.
              if i \<in> set (committed c token_ids g)
              then ok_value c (token_ids ! i) (mlm_input ! i)
              else mlm_input ! i = token_ids ! i)"
proof -
  obtain cp g1 where sh: "random_shuffle (candidates c token_ids) g = (cp, g1)"
    by (cases "random_shuffle (candidates c token_ids) g")
  have ms: "mset cp = mset (candidates c token_ids)"
    using random_shuffle_mset [of "candidates c token_ids" g] sh by simp
  from assms sh obtain pred where
    rl: "replace_loop c token_ids (num_preds c token_ids) cp [] token_ids g1
           = Inr (pred, mlm_input, g')" and
    lab: "mlm_label = mlm_label_of c token_ids pred"
    by (auto simp: get_masked_sample_def replace_masked_tokens_def split: sum.splits)
  from sh rl have com: "committed c token_ids g = pred"
    by (simp add: committed_def)
  from replace_loop_result [OF rl] have
    pred: "pred = take (nat (num_preds c token_ids)) cp" and
    len: "length mlm_input = length token_ids"
    by simp_all
  have vals: "if i \<in> set pred then ok_value c (token_ids ! i) (mlm_input ! i)
              else mlm_input ! i = token_ids ! i"
    if "i < length token_ids" for i
    using replace_loop_values [OF rl _ that] pred by simp
  from ms com pred lab len vals show ?thesis
    by auto
qed

lemma mlm_label_of_nth:
  "i < length token_ids \<Longrightarrow>
     mlm_label_of c token_ids pred ! i =
       (if i \<in> set pred then token_ids ! i else PyInt (PAD_IDX c))"
  by (simp add: mlm_label_of_def)

lemma count_labels_of:
  assumes "distinct pred" and "\<forall>p \<in> set pred. p < length token_ids"
  shows "count_labels c (mlm_label_of c token_ids pred)
           = length (filter (\<lambda>i. token_ids ! i \<noteq> PyInt (PAD_IDX c)) pred)"
proof -
  let ?P = "\<lambda>i. token_ids ! i \<noteq> PyInt (PAD_IDX c)"
  have "count_labels c (mlm_label_of c token_ids pred)
          = length (filter (\<lambda>i. i \<in> set pred \<and> ?P i) [0..<length token_ids])"
    unfolding count_labels_def mlm_label_of_def filter_map length_map
    by (rule arg_cong [where f = length], rule filter_cong) auto
  also have "\<dots> = card ({i. i \<in> set pred \<and> ?P i} \<inter> set [0..<length token_ids])"
    by (rule distinct_length_filter) simp
  also have "{i. i \<in> set pred \<and> ?P i} \<inter> set [0..<length token_ids] = {i. ?P i} \<inter> set pred"
    using assms(2) by auto
  also have "card ({i. ?P i} \<inter> set pred) = length (filter ?P pred)"
    using assms(1) by (simp add: distinct_length_filter)
  finally show ?thesis .
qed

text \<open>
  Claim C1. With a non-empty vocabulary the masking engine returns, whatever the tape of
  draws. Whenever it returns, the corrupted tokens and the labels have the length of the
  input; the committed positions are candidate positions, so none holds \<open>[CLS]\<close> or
  \<open>[SEP]\<close>; at a committed index the label is the original token and the corrupted token
  is the original, the \<open>[MASK]\<close> ID or an integer in \<open>[0, vocab_size)\<close>; at any other
  index the corrupted token is the original and the label is \<open>PAD_IDX\<close>.
\<close>

theorem masked_sample_invariant:
  "(0 < vocab_size c \<longrightarrow> (\<exists>r. get_masked_sample c token_ids g = Inr r)) \<and>
   (\<forall>mlm_input mlm_label g'.
      get_masked_sample c token_ids g = Inr ((mlm_input, mlm_label), g') \<longrightarrow>
        length mlm_input = length token_ids \<and> length mlm_label = length token_ids \<and>
        set (committed c token_ids g) \<subseteq> set (candidates c token_ids) \<and>
        (\<forall>i \<in> set (committed c token_ids g).
           i < length token_ids \<and> token_ids ! i \<noteq> CLS_IDX c \<and> token_ids ! i \<noteq> SEP_IDX c) \<and>
        (\<forall>i < length token_ids.
           if i \<in> set (committed c token_ids g)
           then mlm_label ! i = token_ids ! i \<and>
                (mlm_input ! i = token_ids ! i \<or> mlm_input ! i = MASK_IDS c \<or>
                 (\<exists>r. 0 \<le> r \<and> r < vocab_size c \<and> mlm_input ! i = PyInt r))
           else mlm_input ! i = token_ids ! i \<and> mlm_label ! i = PyInt (PAD_IDX c)))"
proof -
  have returns: "0 < vocab_size c \<longrightarrow> (\<exists>r. get_masked_sample c token_ids g = Inr r)"
    using get_masked_sample_returns by blast
  have result:
    "length mlm_input = length token_ids \<and> length mlm_label = length token_ids \<and>
     set (committed c token_ids g) \<subseteq> set (candidates c token_ids) \<and>
     (\<forall>i \<in> set (committed c token_ids g).
        i < length token_ids \<and> token_ids ! i \<noteq> CLS_IDX c \<and> token_ids ! i \<noteq> SEP_IDX c) \<and>
     (\<forall>i < length token_ids.
        if i \<in> set (committed c token_ids g)
        then mlm_label ! i = token_ids ! i \<and>
             (mlm_input ! i = token_ids ! i \<or> mlm_input ! i = MASK_IDS c \<or>
              (\<exists>r. 0 \<le> r \<and> r < vocab_size c \<and> mlm_input ! i = PyInt r))
        else mlm_input ! i = token_ids ! i \<and> mlm_label ! i = PyInt (PAD_IDX c))"
    if run: "get_masked_sample c token_ids g = Inr ((mlm_input, mlm_label), g')"
    for mlm_input mlm_label g'
  proof -
    from get_masked_sample_run [OF run] obtain cp where
      ms: "mset cp = mset (candidates c token_ids)" and
      com: "committed c token_ids g = take (nat (num_preds c token_ids)) cp" and
      lab: "mlm_label = mlm_label_of c token_ids (committed c token_ids g)" and
      len: "length mlm_input = length token_ids" and
      vals: "\<forall>i < length token_ids.
               if i \<in> set (committed c token_ids g)
               then ok_value c (token_ids ! i) (mlm_input ! i)
               else mlm_input ! i = token_ids ! i"
      by blast
    from ms have "set cp = set (candidates c token_ids)"
      by (rule mset_eq_setD)
    with com have sub: "set (committed c token_ids g) \<subseteq> set (candidates c token_ids)"
      using set_take_subset [of "nat (num_preds c token_ids)" cp] by simp
    have len': "length mlm_label = length token_ids"
      by (simp add: lab mlm_label_of_def)
    have special: "\<forall>i \<in> set (committed c token_ids g).
        i < length token_ids \<and> token_ids ! i \<noteq> CLS_IDX c \<and> token_ids ! i \<noteq> SEP_IDX c"
      using sub by (auto simp: candidates_set)
    have each: "if i \<in> set (committed c token_ids g)
           then mlm_label ! i = token_ids ! i \<and>
                (mlm_input ! i = token_ids ! i \<or> mlm_input ! i = MASK_IDS c \<or>
                 (\<exists>r. 0 \<le> r \<and> r < vocab_size c \<and> mlm_input ! i = PyInt r))
           else mlm_input ! i = token_ids ! i \<and> mlm_label ! i = PyInt (PAD_IDX c)"
      if i: "i < length token_ids" for i
    proof -
      from i vals have v: "if i \<in> set (committed c token_ids g)
             then ok_value c (token_ids ! i) (mlm_input ! i)
             else mlm_input ! i = token_ids ! i"
        by blast
      from i have l: "mlm_label ! i =
          (if i \<in> set (committed c token_ids g) then token_ids ! i else PyInt (PAD_IDX c))"
        by (subst lab) (simp add: mlm_label_of_nth)
      from v l show ?thesis
        by (simp add: ok_value_def split: if_splits)
    qed
    from len len' sub special each show ?thesis
      by blast
  qed
  from returns result show ?thesis
    by blast
qed

text \<open>
  The sequence \<open>[CLS] A C G T [SEP]\<close>: the shuffle puts position 4 first, the draws
  take the random-replacement branch and write 0 there.
\<close>

theorem masked_sample_invariant_witness:
  "0 < vocab_size dna_dataset \<and>
   get_masked_sample dna_dataset (map PyInt [2, 5, 6, 7, 8, 3])
       [1, 2, 0, 2 ^ 53 - 1, 2 ^ 53 - 1, 0]
     = Inr ((map PyInt [2, 5, 6, 7, 0, 3], map PyInt [0, 0, 0, 0, 8, 0]), []) \<and>
   committed dna_dataset (map PyInt [2, 5, 6, 7, 8, 3]) [1, 2, 0, 2 ^ 53 - 1, 2 ^ 53 - 1, 0]
     = [4] \<and>
   candidates dna_dataset (map PyInt [2, 5, 6, 7, 8, 3]) = [1, 2, 3, 4]"
  using masked_sample_invariant [of dna_dataset "map PyInt [2, 5, 6, 7, 8, 3]"
      "[1, 2, 0, 2 ^ 53 - 1, 2 ^ 53 - 1, 0]"]
  by (simp add: mask_eval dna_fields upt_rec)

text \<open>
  Claim C2, as the code has it. Where the float product \<open>len * masked_rate\<close> is finite,
  the number of committed positions is
  \<open>min(max(1, round(len * masked_rate)), number of candidates)\<close> for every tape, the
  product and its rounding being those of floats. The label of a committed position is
  its original token, so the labels other than \<open>PAD_IDX\<close> are as many as the committed
  positions whose token is not \<open>PAD_IDX\<close>; when no candidate position holds \<open>PAD_IDX\<close>,
  that is the number above.
\<close>

theorem masked_label_count:
  assumes "double_finite (len_times_rate c token_ids)"
  shows
  "(0 < vocab_size c \<longrightarrow> (\<exists>r. get_masked_sample c token_ids g = Inr r)) \<and>
   (\<forall>mlm_input mlm_label g'.
      get_masked_sample c token_ids g = Inr ((mlm_input, mlm_label), g') \<longrightarrow>
        int (length (committed c token_ids g))
          = min (num_preds c token_ids) (int (length (candidates c token_ids))) \<and>
        count_labels c mlm_label
          = length (filter (\<lambda>i. token_ids ! i \<noteq> PyInt (PAD_IDX c)) (committed c token_ids g)) \<and>
        ((\<forall>i \<in> set (candidates c token_ids). token_ids ! i \<noteq> PyInt (PAD_IDX c)) \<longrightarrow>
           int (count_labels c mlm_label)
             = min (num_preds c token_ids) (int (length (candidates c token_ids)))))"
proof -
  have returns: "0 < vocab_size c \<longrightarrow> (\<exists>r. get_masked_sample c token_ids g = Inr r)"
    using get_masked_sample_returns by blast
  have result:
    "int (length (committed c token_ids g))
       = min (num_preds c token_ids) (int (length (candidates c token_ids))) \<and>
     count_labels c mlm_label
       = length (filter (\<lambda>i. token_ids ! i \<noteq> PyInt (PAD_IDX c)) (committed c token_ids g)) \<and>
     ((\<forall>i \<in> set (candidates c token_ids). token_ids ! i \<noteq> PyInt (PAD_IDX c)) \<longrightarrow>
        int (count_labels c mlm_label)
          = min (num_preds c token_ids) (int (length (candidates c token_ids))))"
    if run: "get_masked_sample c token_ids g = Inr ((mlm_input, mlm_label), g')"
    for mlm_input mlm_label g'
  proof -
    from get_masked_sample_run [OF run] obtain cp where
      ms: "mset cp = mset (candidates c token_ids)" and
      com: "committed c token_ids g = take (nat (num_preds c token_ids)) cp" and
      lab: "mlm_label = mlm_label_of c token_ids (committed c token_ids g)"
      by blast
    from ms have setcp: "set cp = set (candidates c token_ids)"
      by (rule mset_eq_setD)
    from ms have lencp: "length cp = length (candidates c token_ids)"
      by (rule mset_eq_length)
    from ms candidates_distinct [of c token_ids] have "distinct cp"
      by (metis mset_eq_imp_distinct_iff)
    with com have dist: "distinct (committed c token_ids g)"
      by simp
    from com setcp have sub: "set (committed c token_ids g) \<subseteq> set (candidates c token_ids)"
      using set_take_subset [of "nat (num_preds c token_ids)" cp] by simp
    then have inside: "\<forall>p \<in> set (committed c token_ids g). p < length token_ids"
      by (auto simp: candidates_set)
    have k: "1 \<le> num_preds c token_ids"
      by (simp add: num_preds_def)
    have "int (min (length cp) (nat (num_preds c token_ids)))
            = min (num_preds c token_ids) (int (length cp))"
      using k by arith
    then have n: "int (length (committed c token_ids g))
            = min (num_preds c token_ids) (int (length (candidates c token_ids)))"
      by (simp add: com lencp)
    have cnt: "count_labels c mlm_label
            = length (filter (\<lambda>i. token_ids ! i \<noteq> PyInt (PAD_IDX c)) (committed c token_ids g))"
      by (subst lab) (rule count_labels_of [OF dist inside])
    have all: "int (count_labels c mlm_label)
               = min (num_preds c token_ids) (int (length (candidates c token_ids)))"
      if "\<forall>i \<in> set (candidates c token_ids). token_ids ! i \<noteq> PyInt (PAD_IDX c)"
    proof -
      from that sub have
        "filter (\<lambda>i. token_ids ! i \<noteq> PyInt (PAD_IDX c)) (committed c token_ids g)
           = committed c token_ids g"
        by (auto simp: filter_id_conv)
      with cnt n show ?thesis
        by simp
    qed
    from n cnt all show ?thesis
      by blast
  qed
  from returns result show ?thesis
    by blast
qed

text \<open>
  A sequence of length 10 at the rate 0.15: the float product is 1.5, rounded to 2
  (the exact product of the two values is below 1.5 and would round to 1). Two of the
  eight candidates are committed, positions 8 and 1, and two labels differ from 0.
\<close>

theorem masked_label_count_witness:
  "double_finite (len_times_rate dna_dataset (map PyInt [2, 5, 6, 7, 8, 5, 6, 7, 8, 3])) \<and>
   len_times_rate dna_dataset (map PyInt [2, 5, 6, 7, 8, 5, 6, 7, 8, 3]) = 3 / 2 \<and>
   num_preds dna_dataset (map PyInt [2, 5, 6, 7, 8, 5, 6, 7, 8, 3]) = 2 \<and>
   0 < vocab_size dna_dataset \<and>
   get_masked_sample dna_dataset (map PyInt [2, 5, 6, 7, 8, 5, 6, 7, 8, 3])
       [3, 1, 4, 1, 5, 2, 0, 0, 2 ^ 53 - 1, 2 ^ 53 - 1, 7]
     = Inr ((map PyInt [2, 7, 6, 7, 8, 5, 6, 7, 4, 3],
             map PyInt [0, 5, 0, 0, 0, 0, 0, 0, 8, 0]), []) \<and>
   committed dna_dataset (map PyInt [2, 5, 6, 7, 8, 5, 6, 7, 8, 3])
       [3, 1, 4, 1, 5, 2, 0, 0, 2 ^ 53 - 1, 2 ^ 53 - 1, 7] = [8, 1] \<and>
   candidates dna_dataset (map PyInt [2, 5, 6, 7, 8, 5, 6, 7, 8, 3]) = [1, 2, 3, 4, 5, 6, 7, 8] \<and>
   PyInt (PAD_IDX dna_dataset) \<notin> set (map PyInt [2, 5, 6, 7, 8, 5, 6, 7, 8, 3]) \<and>
   count_labels dna_dataset (map PyInt [0, 5, 0, 0, 0, 0, 0, 0, 8, 0]) = 2 \<and>
   min (num_preds dna_dataset (map PyInt [2, 5, 6, 7, 8, 5, 6, 7, 8, 3]))
     (int (length (candidates dna_dataset (map PyInt [2, 5, 6, 7, 8, 5, 6, 7, 8, 3])))) = 2"
  using masked_label_count [of dna_dataset "map PyInt [2, 5, 6, 7, 8, 5, 6, 7, 8, 3]"
      "[3, 1, 4, 1, 5, 2, 0, 0, 2 ^ 53 - 1, 2 ^ 53 - 1, 7]"]
  by (simp add: mask_eval dna_fields upt_rec)

text \<open>
  Claim C2 as stated counts the labels other than \<open>PAD_IDX\<close> for every sequence with a
  candidate position. In the vocabulary whose line 0 is \<open>A\<close> the sequence
  \<open>[CLS] A [SEP]\<close> has one candidate, which is committed, and its label is the token 0,
  equal to \<open>PAD_IDX\<close>: no label differs from \<open>PAD_IDX\<close>, where the claim counts 1.
\<close>

theorem masked_label_count_counterexample:
  "Vocab_getitem (vocab acgt_dataset) ''A'' = Inr (PyInt 0) \<and>
   candidates acgt_dataset [PyInt 5, PyInt 0, PyInt 6] = [1] \<and>
   get_masked_sample acgt_dataset [PyInt 5, PyInt 0, PyInt 6] []
     = Inr (([PyInt 5, PyInt 7, PyInt 6], [PyInt 0, PyInt 0, PyInt 0]), []) \<and>
   count_labels acgt_dataset [PyInt 0, PyInt 0, PyInt 0] = 0 \<and>
   min (num_preds acgt_dataset [PyInt 5, PyInt 0, PyInt 6])
     (int (length (candidates acgt_dataset [PyInt 5, PyInt 0, PyInt 6]))) = 1 \<and>
   int (count_labels acgt_dataset [PyInt 0, PyInt 0, PyInt 0])
     \<noteq> min (num_preds acgt_dataset [PyInt 5, PyInt 0, PyInt 6])
         (int (length (candidates acgt_dataset [PyInt 5, PyInt 0, PyInt 6])))"
  by (simp add: mask_eval acgt_fields upt_rec Vocab_getitem_def stoi_get_def acgt_dataset_def
      acgt_vocab_def Vocab_init_def strip_nl_def)

text \<open>
  Claim C4. On the empty sequence the masking engine returns the empty corrupted
  sequence and the empty label sequence, and reads no draw, although the target count
  is 1 and there is no candidate.
\<close>

theorem masked_sample_empty:
  "get_masked_sample c [] g = Inr (([], []), g)"
  by (simp add: mask_eval)

section \<open>The batch collator\<close>

lemma pad_one_length: "0 \<le> m \<Longrightarrow> length (pad_one m pad s) = nat m"
  by (auto simp: pad_one_def slice_to_def)

lemma pad_one_nth:
  "0 \<le> m \<Longrightarrow> t < nat m \<Longrightarrow> pad_one m pad s ! t = padded pad s t"
  by (auto simp: pad_one_def slice_to_def padded_def nth_append)

lemma pad_one_same: "pad_one (int (length s)) pad s = s"
  by (simp add: pad_one_def slice_to_def)

lemma torch_stack_dim1_ok:
  assumes "ts \<noteq> []" and "\<forall>t \<in> set ts. length t = n"
  shows "torch_stack_dim1 ts
           = Inr \<lparr>dim0 = n, dim1 = length ts, rows = map (\<lambda>i. map (\<lambda>t. t ! i) ts) [0..<n]\<rparr>"
proof -
  from assms have "length (hd ts) = n"
    by simp
  moreover from assms have "list_all (\<lambda>t. length t = n) ts"
    by (simp add: list_all_iff)
  ultimately show ?thesis
    using assms(1) by (simp add: torch_stack_dim1_def)
qed

lemma pad_to_ok:
  assumes "sequences \<noteq> []" and "0 \<le> m"
  shows "pad_to sequences False m pad
           = Inr \<lparr>dim0 = nat m, dim1 = length sequences,
                  rows = map (\<lambda>t. map (\<lambda>s. padded pad s t) sequences) [0..<nat m]\<rparr>"
proof -
  let ?ts = "map (pad_one m pad) sequences"
  have "torch_stack_dim1 ?ts
          = Inr \<lparr>dim0 = nat m, dim1 = length ?ts,
                 rows = map (\<lambda>i. map (\<lambda>t. t ! i) ?ts) [0..<nat m]\<rparr>"
    using assms by (intro torch_stack_dim1_ok) (simp_all add: pad_one_length)
  moreover have "map (\<lambda>i. map (\<lambda>t. t ! i) ?ts) [0..<nat m]
                   = map (\<lambda>t. map (\<lambda>s. padded pad s t) sequences) [0..<nat m]"
    using assms(2) by (simp add: pad_one_nth)
  ultimately show ?thesis
    by (simp add: pad_to_def)
qed

lemma max_size_Max:
  assumes "sequences \<noteq> []"
  shows "max_size sequences = int (Max (length ` set sequences))"
proof -
  from assms obtain s ss where eq: "sequences = s # ss"
    by (cases sequences) auto
  have "max_size sequences = Max (set (map (\<lambda>s. int (length s)) sequences))"
    unfolding eq max_size_def
    using Max.set_eq_fold [of "int (length s)" "map (\<lambda>s. int (length s)) ss"] by simp
  also have "set (map (\<lambda>s. int (length s)) sequences) = int ` (length ` set sequences)"
    by (simp add: image_image)
  also have "Max (int ` (length ` set sequences)) = int (Max (length ` set sequences))"
    using assms by (intro mono_Max_commute [symmetric] monoI) simp_all
  finally show ?thesis .
qed

lemma pad_sequence_ok:
  assumes "sequences \<noteq> []" and "max_len = LenNone \<or> (\<exists>m. 0 \<le> m \<and> max_len = LenInt m)"
  shows "pad_sequence sequences False max_len pad
           = Inr \<lparr>dim0 = target_len max_len sequences, dim1 = length sequences,
                  rows = map (\<lambda>t. map (\<lambda>s. padded pad s t) sequences)
                           [0..<target_len max_len sequences]\<rparr>"
proof (cases max_len)
  case LenNone
  with assms(1) show ?thesis
    by (simp add: pad_sequence_def target_len_def pad_to_ok max_size_Max)
next
  case (LenInt m)
  with assms show ?thesis
    by (simp add: pad_sequence_def target_len_def pad_to_ok)
next
  case LenSame
  with assms(2) show ?thesis
    by simp
qed


lemma transpose_mask_nth:
  assumes "wf_tensor2 x" and "b < dim1 x" and "t < dim0 x"
  shows "rows (transpose01 (tensor_eq_scalar x v)) ! b ! t = (rows x ! t ! b = v)"
proof -
  from assms have "length (rows x ! t) = dim1 x"
    by (simp add: wf_tensor2_def list_all_length)
  with assms show ?thesis
    by (simp add: transpose01_def tensor_eq_scalar_def wf_tensor2_def)
qed

lemma transpose_mask_wf:
  "wf_tensor2 x \<Longrightarrow> wf_tensor2 (transpose01 (tensor_eq_scalar x v))"
  by (simp add: transpose01_def tensor_eq_scalar_def wf_tensor2_def list_all_iff)

lemma target_len_same:
  assumes "\<forall>s \<in> set data_batch. length (fst s) = length (snd s)"
  shows "target_len max_len (map snd data_batch) = target_len max_len (map fst data_batch)"
proof -
  have "length ` set (map snd data_batch) = length ` set (map fst data_batch)"
    using assms by (auto simp: image_iff) force+
  then show ?thesis
    unfolding target_len_def by (cases max_len) simp_all
qed

text \<open>
  Claim C3. For a non-empty batch and \<open>max_sen_len\<close> either \<open>None\<close> or a length
  (an integer that is not negative), collation returns. The token tensor has shape
  \<open>[T, batch_size]\<close>, \<open>T\<close> being the configured length, else the longest token
  sequence of the batch; the label tensor has that shape for the label sequences, which
  is the same \<open>T\<close> when the two sequences of every sample have one length. Column
  \<open>b\<close> is sample \<open>b\<close> padded on the right with \<open>PAD_IDX\<close>, or cut, to \<open>T\<close>
  elements. The mask has shape \<open>[batch_size, T]\<close> and \<open>mask[b][t]\<close> holds exactly when
  \<open>tokens[t][b]\<close> is \<open>PAD_IDX\<close>.
\<close>

lemma right_pad_nth: "t < T \<Longrightarrow> right_pad T pad s ! t = padded pad s t"
  by (auto simp: right_pad_def padded_def nth_append)

lemma right_pad_length: "length (right_pad T pad s) = T"
  by (simp add: right_pad_def)

theorem generate_batch_shape:
  assumes "data_batch \<noteq> []"
    and "max_sen_len c = LenNone \<or> (\<exists>m. 0 \<le> m \<and> max_sen_len c = LenInt m)"
  shows "\<exists>b_token_ids b_mask b_mlm_label.
     generate_batch c data_batch = Inr (b_token_ids, b_mask, b_mlm_label) \<and>
     wf_tensor2 b_token_ids \<and> wf_tensor2 b_mask \<and> wf_tensor2 b_mlm_label \<and>
     dim0 b_token_ids = target_len (max_sen_len c) (map fst data_batch) \<and>
     dim1 b_token_ids = length data_batch \<and>
     dim0 b_mlm_label = target_len (max_sen_len c) (map snd data_batch) \<and>
     dim1 b_mlm_label = length data_batch \<and>
     dim0 b_mask = length data_batch \<and> dim1 b_mask = dim0 b_token_ids \<and>
     ((\<forall>s \<in> set data_batch. length (fst s) = length (snd s)) \<longrightarrow>
        dim0 b_mlm_label = dim0 b_token_ids) \<and>
     (\<forall>b < length data_batch.
        (\<forall>t < dim0 b_token_ids.
           rows b_token_ids ! t ! b
             = right_pad (dim0 b_token_ids) (PAD_IDX c) (fst (data_batch ! b)) ! t \<and>
           rows b_mask ! b ! t = (rows b_token_ids ! t ! b = PAD_IDX c)) \<and>
        (\<forall>t < dim0 b_mlm_label.
           rows b_mlm_label ! t ! b
             = right_pad (dim0 b_mlm_label) (PAD_IDX c) (snd (data_batch ! b)) ! t))"
proof -
  let ?T = "target_len (max_sen_len c) (map fst data_batch)"
  let ?L = "target_len (max_sen_len c) (map snd data_batch)"
  let ?toks = "\<lparr>dim0 = ?T, dim1 = length (map fst data_batch),
                 rows = map (\<lambda>t. map (\<lambda>s. padded (PAD_IDX c) s t) (map fst data_batch)) [0..<?T]\<rparr>"
  let ?labs = "\<lparr>dim0 = ?L, dim1 = length (map snd data_batch),
                 rows = map (\<lambda>t. map (\<lambda>s. padded (PAD_IDX c) s t) (map snd data_batch)) [0..<?L]\<rparr>"
  let ?mask = "transpose01 (tensor_eq_scalar ?toks (PAD_IDX c))"
  have tk: "pad_sequence (map fst data_batch) False (max_sen_len c) (PAD_IDX c) = Inr ?toks"
    using assms by (intro pad_sequence_ok) simp_all
  have lb: "pad_sequence (map snd data_batch) False (max_sen_len c) (PAD_IDX c) = Inr ?labs"
    using assms by (intro pad_sequence_ok) simp_all
  have run: "generate_batch c data_batch = Inr (?toks, ?mask, ?labs)"
    by (simp add: generate_batch_def tk lb)
  have wt: "wf_tensor2 ?toks" and wl: "wf_tensor2 ?labs"
    by (simp_all add: wf_tensor2_def list_all_iff)
  from wt have wm: "wf_tensor2 ?mask"
    by (rule transpose_mask_wf)
  have dm: "dim0 ?mask = length data_batch \<and> dim1 ?mask = dim0 ?toks"
    by (simp add: transpose01_def tensor_eq_scalar_def)
  have same: "(\<forall>s \<in> set data_batch. length (fst s) = length (snd s)) \<longrightarrow> dim0 ?labs = dim0 ?toks"
    using target_len_same [of data_batch "max_sen_len c"] by simp
  have el: "(\<forall>t < dim0 ?toks.
           rows ?toks ! t ! b = right_pad (dim0 ?toks) (PAD_IDX c) (fst (data_batch ! b)) ! t \<and>
           rows ?mask ! b ! t = (rows ?toks ! t ! b = PAD_IDX c)) \<and>
        (\<forall>t < dim0 ?labs.
           rows ?labs ! t ! b = right_pad (dim0 ?labs) (PAD_IDX c) (snd (data_batch ! b)) ! t)"
    if b: "b < length data_batch" for b
  proof -
    have "rows ?mask ! b ! t = (rows ?toks ! t ! b = PAD_IDX c)" if "t < dim0 ?toks" for t
      using wt _ that by (rule transpose_mask_nth) (simp add: b)
    moreover have
      "rows ?toks ! t ! b = right_pad (dim0 ?toks) (PAD_IDX c) (fst (data_batch ! b)) ! t"
      if "t < dim0 ?toks" for t
      using that b by (simp add: right_pad_nth)
    moreover have
      "rows ?labs ! t ! b = right_pad (dim0 ?labs) (PAD_IDX c) (snd (data_batch ! b)) ! t"
      if "t < dim0 ?labs" for t
      using that b by (simp add: right_pad_nth)
    ultimately show ?thesis
      by blast
  qed
  have d: "dim0 ?toks = ?T" "dim1 ?toks = length data_batch" "dim0 ?labs = ?L"
    "dim1 ?labs = length data_batch"
    by simp_all
  from run wt wm wl d dm same el show ?thesis
    by blast
qed


lemmas batch_eval = generate_batch_def pad_sequence_def pad_to_def pad_one_def slice_to_def
  max_size_def torch_stack_dim1_def transpose01_def tensor_eq_scalar_def wf_tensor2_def
  target_len_def padded_def right_pad_def

text \<open>Two samples of lengths 4 and 6, no configured length: tensors of shape \<open>[6, 2]\<close>.\<close>

theorem generate_batch_shape_witness:
  "[([5, 4, 7, 8], [0, 6, 0, 0]), ([5, 6, 7, 8, 4, 6], [0, 0, 0, 0, 5, 0])] \<noteq> [] \<and>
   max_sen_len dna_dataset = LenNone \<and>
   generate_batch dna_dataset
       [([5, 4, 7, 8], [0, 6, 0, 0]), ([5, 6, 7, 8, 4, 6], [0, 0, 0, 0, 5, 0])]
     = Inr (\<lparr>dim0 = 6, dim1 = 2, rows = [[5, 5], [4, 6], [7, 7], [8, 8], [0, 4], [0, 6]]\<rparr>,
            \<lparr>dim0 = 2, dim1 = 6,
              rows = [[False, False, False, False, True, True],
                      [False, False, False, False, False, False]]\<rparr>,
            \<lparr>dim0 = 6, dim1 = 2, rows = [[0, 0], [6, 0], [0, 0], [0, 0], [0, 5], [0, 0]]\<rparr>) \<and>
   target_len (max_sen_len dna_dataset)
       (map fst [([5, 4, 7, 8], [0, 6, 0, 0]), ([5, 6, 7, 8, 4, 6], [0, 0, 0, 0, 5, 0])]) = 6"
  using generate_batch_shape
    [of "[([5, 4, 7, 8], [0, 6, 0, 0]), ([5, 6, 7, 8, 4, 6], [0, 0, 0, 0, 5, 0])]" dna_dataset]
  by (simp add: batch_eval dna_fields upt_rec)

text \<open>
  Claim C8. When every token and label sequence of the batch has length \<open>T\<close> and
  \<open>max_sen_len\<close> is \<open>T\<close>, collation is \<open>torch.stack\<close> of the sequences as they are:
  nothing is padded or cut. For a non-empty batch it returns, and element \<open>[t][b]\<close> of
  the token and label tensors is element \<open>t\<close> of the sequence of sample \<open>b\<close>. For
  the empty batch stacking raises, with or without collation.
\<close>

theorem generate_batch_idempotent:
  assumes "\<forall>s \<in> set data_batch. length (fst s) = T \<and> length (snd s) = T"
    and "max_sen_len c = LenInt (int T)"
  shows "generate_batch c data_batch =
           (case torch_stack_dim1 (map fst data_batch) of
              Inl e \<Rightarrow> Inl e
            | Inr b_token_ids \<Rightarrow>
                (case torch_stack_dim1 (map snd data_batch) of
                   Inl e \<Rightarrow> Inl e
                 | Inr b_mlm_label \<Rightarrow>
                     Inr (b_token_ids, transpose01 (tensor_eq_scalar b_token_ids (PAD_IDX c)),
                          b_mlm_label))) \<and>
         (data_batch \<noteq> [] \<longrightarrow>
            (\<exists>b_token_ids b_mask b_mlm_label.
               generate_batch c data_batch = Inr (b_token_ids, b_mask, b_mlm_label) \<and>
               dim0 b_token_ids = T \<and> dim1 b_token_ids = length data_batch \<and>
               dim0 b_mlm_label = T \<and> dim1 b_mlm_label = length data_batch \<and>
               (\<forall>t < T. \<forall>b < length data_batch.
                  rows b_token_ids ! t ! b = fst (data_batch ! b) ! t \<and>
                  rows b_mlm_label ! t ! b = snd (data_batch ! b) ! t)))"
proof -
  have same: "pad_one (int T) (PAD_IDX c) s = s" if "length s = T" for s
    using pad_one_same [of s "PAD_IDX c"] that by simp
  have fst_same: "map (pad_one (int T) (PAD_IDX c)) (map fst data_batch) = map fst data_batch"
  proof (rule map_idI)
    fix x
    assume "x \<in> set (map fst data_batch)"
    then obtain s where "s \<in> set data_batch" "x = fst s"
      by auto
    with assms(1) have "length x = T"
      by simp
    then show "pad_one (int T) (PAD_IDX c) x = x"
      by (rule same)
  qed
  have snd_same: "map (pad_one (int T) (PAD_IDX c)) (map snd data_batch) = map snd data_batch"
  proof (rule map_idI)
    fix x
    assume "x \<in> set (map snd data_batch)"
    then obtain s where "s \<in> set data_batch" "x = snd s"
      by auto
    with assms(1) have "length x = T"
      by simp
    then show "pad_one (int T) (PAD_IDX c) x = x"
      by (rule same)
  qed
  have stack: "generate_batch c data_batch =
           (case torch_stack_dim1 (map fst data_batch) of
              Inl e \<Rightarrow> Inl e
            | Inr b_token_ids \<Rightarrow>
                (case torch_stack_dim1 (map snd data_batch) of
                   Inl e \<Rightarrow> Inl e
                 | Inr b_mlm_label \<Rightarrow>
                     Inr (b_token_ids, transpose01 (tensor_eq_scalar b_token_ids (PAD_IDX c)),
                          b_mlm_label)))"
    unfolding generate_batch_def pad_sequence_def pad_to_def assms(2) sen_len.case
      fst_same snd_same
    by (simp split: sum.splits)
  have full: "\<exists>b_token_ids b_mask b_mlm_label.
               generate_batch c data_batch = Inr (b_token_ids, b_mask, b_mlm_label) \<and>
               dim0 b_token_ids = T \<and> dim1 b_token_ids = length data_batch \<and>
               dim0 b_mlm_label = T \<and> dim1 b_mlm_label = length data_batch \<and>
               (\<forall>t < T. \<forall>b < length data_batch.
                  rows b_token_ids ! t ! b = fst (data_batch ! b) ! t \<and>
                  rows b_mlm_label ! t ! b = snd (data_batch ! b) ! t)"
    if ne: "data_batch \<noteq> []"
  proof -
    have a: "torch_stack_dim1 (map fst data_batch)
          = Inr \<lparr>dim0 = T, dim1 = length (map fst data_batch),
                 rows = map (\<lambda>i. map (\<lambda>t. t ! i) (map fst data_batch)) [0..<T]\<rparr>"
      using ne assms(1) by (intro torch_stack_dim1_ok) simp_all
    have b: "torch_stack_dim1 (map snd data_batch)
          = Inr \<lparr>dim0 = T, dim1 = length (map snd data_batch),
                 rows = map (\<lambda>i. map (\<lambda>t. t ! i) (map snd data_batch)) [0..<T]\<rparr>"
      using ne assms(1) by (intro torch_stack_dim1_ok) simp_all
    show ?thesis
      unfolding stack a b by simp
  qed
  from stack full show ?thesis
    by blast
qed

text \<open>Two samples of length 3 collated at the configured length 3.\<close>

theorem generate_batch_idempotent_witness:
  "length [5, 4, 7 :: int] = 3 \<and> length [0, 6, 0 :: int] = 3 \<and>
   length [6, 8, 4 :: int] = 3 \<and> length [0, 0, 5 :: int] = 3 \<and>
   max_sen_len (dna_dataset\<lparr>max_sen_len := LenInt 3\<rparr>) = LenInt (int 3) \<and>
   generate_batch (dna_dataset\<lparr>max_sen_len := LenInt 3\<rparr>)
       [([5, 4, 7], [0, 6, 0]), ([6, 8, 4], [0, 0, 5])]
     = Inr (\<lparr>dim0 = 3, dim1 = 2, rows = [[5, 6], [4, 8], [7, 4]]\<rparr>,
            \<lparr>dim0 = 2, dim1 = 3, rows = [[False, False, False], [False, False, False]]\<rparr>,
            \<lparr>dim0 = 3, dim1 = 2, rows = [[0, 0], [6, 0], [0, 5]]\<rparr>) \<and>
   torch_stack_dim1 [[5, 4, 7], [6, 8, 4]]
     = Inr \<lparr>dim0 = 3, dim1 = 2, rows = [[5, 6], [4, 8], [7, 4]]\<rparr>"
  using generate_batch_idempotent
    [of "[([5, 4, 7], [0, 6, 0]), ([6, 8, 4], [0, 0, 5])]" 3 "dna_dataset\<lparr>max_sen_len := LenInt 3\<rparr>"]
  by (simp add: batch_eval dna_fields upt_rec)

section \<open>Evaluation: accuracy\<close>

lemma transpose01_set:
  assumes "wf_tensor2 x"
  shows "set (concat (rows (transpose01 x))) = set (concat (rows x))"
proof -
  have len: "length r = dim1 x" if "r \<in> set (rows x)" for r
    using assms that by (simp add: wf_tensor2_def list_all_iff)
  show ?thesis
  proof (rule set_eqI, rule iffI)
    fix e
    assume "e \<in> set (concat (rows (transpose01 x)))"
    then obtain j r where "r \<in> set (rows x)" "j < dim1 x" "e = r ! j"
      by (auto simp: transpose01_def)
    with len [of r] have "e \<in> set r"
      by simp
    with \<open>r \<in> set (rows x)\<close> show "e \<in> set (concat (rows x))"
      by auto
  next
    fix e
    assume "e \<in> set (concat (rows x))"
    then obtain r where r: "r \<in> set (rows x)" "e \<in> set r"
      by auto
    then obtain j where "j < length r" "e = r ! j"
      by (auto simp: in_set_conv_nth)
    with r len [of r] show "e \<in> set (concat (rows (transpose01 x)))"
      by (auto simp: transpose01_def)
  qed
qed

lemma count_true_and:
  "length as = length ms \<Longrightarrow> count_true (map2 (\<lambda>a m. a \<and> m) as ms) \<le> count_true ms"
  by (induction as ms rule: list_induct2) (auto simp: count_true_def)

lemma first_max_iff:
  "first_max xs i \<longleftrightarrow>
     i < length xs \<and> (\<forall>k < length xs. xs ! k \<le> xs ! i) \<and> (\<forall>k < i. xs ! k < xs ! i)"
  by (auto simp: first_max_def list_all_length)

lemma first_max_unique:
  assumes "first_max xs i" and "first_max xs j"
  shows "i = j"
proof (rule ccontr)
  assume "i \<noteq> j"
  then consider "i < j" | "j < i"
    by linarith
  then show False
  proof cases
    case 1
    with assms have "xs ! i < xs ! j" "xs ! j \<le> xs ! i"
      by (auto simp: first_max_iff)
    then show False by simp
  next
    case 2
    with assms have "xs ! j < xs ! i" "xs ! i \<le> xs ! j"
      by (auto simp: first_max_iff)
    then show False by simp
  qed
qed

lemma first_max_snoc_new:
  assumes "first_max ys bi" and "ys ! bi < x"
  shows "first_max (ys @ [x]) (length ys)"
  unfolding first_max_iff
proof (intro conjI allI impI)
  show "length ys < length (ys @ [x])"
    by simp
next
  fix k
  assume "k < length (ys @ [x])"
  then consider "k < length ys" | "k = length ys"
    by fastforce
  then show "(ys @ [x]) ! k \<le> (ys @ [x]) ! length ys"
  proof cases
    case 1
    with assms(1) have "ys ! k \<le> ys ! bi"
      by (simp add: first_max_iff)
    with assms(2) 1 show ?thesis
      by (simp add: nth_append)
  next
    case 2
    then show ?thesis by simp
  qed
next
  fix k
  assume k: "k < length ys"
  with assms(1) have "ys ! k \<le> ys ! bi"
    by (simp add: first_max_iff)
  with assms(2) k show "(ys @ [x]) ! k < (ys @ [x]) ! length ys"
    by (simp add: nth_append)
qed

lemma first_max_snoc_old:
  assumes "first_max ys bi" and "\<not> ys ! bi < x"
  shows "first_max (ys @ [x]) bi"
  using assms by (auto simp: first_max_iff nth_append less_Suc_eq)

lemma argmax_from_first_max:
  assumes "first_max ys bi" and "best = ys ! bi" and "i = length ys"
  shows "first_max (ys @ xs) (argmax_from xs i best bi)"
  using assms
proof (induction xs arbitrary: ys bi best i)
  case Nil
  then show ?case by simp
next
  case (Cons x xs)
  show ?case
  proof (cases "best < x")
    case True
    with Cons.prems have "first_max (ys @ [x]) (length ys)"
      by (intro first_max_snoc_new) simp_all
    then have "first_max ((ys @ [x]) @ xs) (argmax_from xs (Suc i) x (length ys))"
      using Cons.prems(3) by (intro Cons.IH) simp_all
    with True Cons.prems(3) show ?thesis
      by simp
  next
    case False
    with Cons.prems have fm: "first_max (ys @ [x]) bi"
      by (intro first_max_snoc_old) simp_all
    from Cons.prems(1) have "bi < length ys"
      by (simp add: first_max_iff)
    with Cons.prems(2) have "best = (ys @ [x]) ! bi"
      by (simp add: nth_append)
    with fm have "first_max ((ys @ [x]) @ xs) (argmax_from xs (Suc i) best bi)"
      using Cons.prems(3) by (intro Cons.IH) simp_all
    with False show ?thesis
      by simp
  qed
qed

lemma argmax_first_max:
  assumes "xs \<noteq> []"
  shows "first_max xs (argmax xs)"
proof -
  from assms obtain x r where xs: "xs = x # r"
    by (cases xs) auto
  have "first_max [x] 0"
    by (simp add: first_max_def)
  then have "first_max ([x] @ r) (argmax_from r 1 x 0)"
    by (rule argmax_from_first_max) simp_all
  then show ?thesis
    by (simp add: xs argmax_def)
qed

lemma argmax_eq_iff:
  assumes "xs \<noteq> []"
  shows "int (argmax xs) = l \<longleftrightarrow> 0 \<le> l \<and> first_max xs (nat l)"
proof
  assume "int (argmax xs) = l"
  then have "0 \<le> l" "nat l = argmax xs"
    by auto
  with argmax_first_max [OF assms] show "0 \<le> l \<and> first_max xs (nat l)"
    by simp
next
  assume "0 \<le> l \<and> first_max xs (nat l)"
  with argmax_first_max [OF assms] have "nat l = argmax xs" "0 \<le> l"
    by (auto intro: first_max_unique)
  then show "int (argmax xs) = l"
    by simp
qed

lemma zip_concat_map:
  "zip (concat (map (\<lambda>b. map (f b) ts) bs)) (concat (map (\<lambda>b. map (g b) ts) bs))
     = concat (map (\<lambda>b. map (\<lambda>t. (f b t, g b t)) ts) bs)"
  by (induction bs) (simp_all add: zip_map_map zip_same_conv_map)

lemma count_true_positions:
  "count_true (concat (map (\<lambda>b. map (\<lambda>t. X (b, t)) ts) bs))
     = length (filter X (List.product bs ts))"
proof -
  have "concat (map (\<lambda>b. map (\<lambda>t. X (b, t)) ts) bs) = map X (List.product bs ts)"
    by (induction bs) simp_all
  then show ?thesis
    by (simp add: count_true_def filter_map comp_def)
qed


lemma map2_concat_map:
  "map2 h (concat (map (\<lambda>b. map (f b) ts) bs)) (concat (map (\<lambda>b. map (g b) ts) bs))
     = concat (map (\<lambda>b. map (\<lambda>t. h (f b t) (g b t)) ts) bs)"
  by (simp add: zip_concat_map map_concat comp_def)

lemma transpose01_flat:
  assumes "wf_tensor2 x"
  shows "concat (rows (transpose01 x))
           = concat (map (\<lambda>b. map (\<lambda>t. rows x ! t ! b) [0..<dim0 x]) [0..<dim1 x])"
proof -
  have "map (\<lambda>r. r ! b) (rows x) = map (\<lambda>t. rows x ! t ! b) [0..<dim0 x]" for b
  proof -
    have "map (\<lambda>t. rows x ! t ! b) [0..<length (rows x)]
            = map (\<lambda>r. r ! b) (map (\<lambda>t. rows x ! t) [0..<length (rows x)])"
      by simp
    also have "\<dots> = map (\<lambda>r. r ! b) (rows x)"
      by (simp only: map_nth)
    finally show ?thesis
      using assms by (simp add: wf_tensor2_def)
  qed
  then show ?thesis
    by (simp add: transpose01_def)
qed

text \<open>
  Claim C10. On logits of shape \<open>[T, B, V]\<close> with \<open>V > 0\<close> and labels of shape
  \<open>[T, B]\<close>, \<open>accuracy\<close> divides the count of correct predictions by the count of
  positions whose label differs from \<open>pad\<close>, with no guard. When that count is 0, which
  is when every label is \<open>pad\<close>, it raises \<open>ZeroDivisionError\<close>; otherwise it returns the
  quotient and the two counts. A prediction is correct where the label differs from
  \<open>pad\<close> and is the index of the first maximal logit.
\<close>

theorem accuracy_division:
  assumes "wf_tensor3 mlm_logits" and "wf_tensor2 mlm_labels"
    and "size0 mlm_logits = dim0 mlm_labels" and "size1 mlm_logits = dim1 mlm_labels"
    and "0 < size2 mlm_logits"
  shows "accuracy mlm_logits mlm_labels pad =
           (if labelled_total mlm_labels pad = 0 then Inl ZeroDivisionError
            else Inr (of_nat (correct_total mlm_logits mlm_labels pad)
                        / of_nat (labelled_total mlm_labels pad),
                      correct_total mlm_logits mlm_labels pad,
                      labelled_total mlm_labels pad)) \<and>
         (labelled_total mlm_labels pad = 0
            \<longleftrightarrow> (\<forall>l \<in> set (labels_of mlm_labels). l = pad)) \<and>
         correct_total mlm_logits mlm_labels pad \<le> labelled_total mlm_labels pad"
proof -
  let ?T = "dim0 mlm_labels" and ?B = "dim1 mlm_labels"
  let ?P = "\<lambda>b t. int (argmax (cells mlm_logits ! t ! b))"
  let ?L = "\<lambda>b t. rows mlm_labels ! t ! b"
  let ?pred = "concat (map (\<lambda>b. map (\<lambda>t. ?P b t) [0..<?T]) [0..<?B])"
  let ?true = "concat (map (\<lambda>b. map (\<lambda>t. ?L b t) [0..<?T]) [0..<?B])"
  let ?acc = "concat (map (\<lambda>b. map (\<lambda>t. ?P b t = ?L b t) [0..<?T]) [0..<?B])"
  let ?mask = "concat (map (\<lambda>b. map (\<lambda>t. ?L b t \<noteq> pad) [0..<?T]) [0..<?B])"
  let ?acc' = "concat (map (\<lambda>b. map (\<lambda>t. ?P b t = ?L b t \<and> ?L b t \<noteq> pad) [0..<?T]) [0..<?B])"
  have true: "concat (rows (transpose01 mlm_labels)) = ?true"
    using assms(2) by (rule transpose01_flat)
  have len: "length ?pred = length ?true" "length ?acc = length ?mask"
    by (simp_all add: length_concat comp_def)
  have acc: "map2 (\<lambda>p t. p = t) ?pred ?true = ?acc"
    by (rule map2_concat_map)
  have mask: "map (\<lambda>t. \<not> (t = pad)) ?true = ?mask"
    by (simp add: map_concat comp_def)
  have acc': "map2 (\<lambda>a m. a \<and> m) ?acc ?mask = ?acc'"
    by (rule map2_concat_map)
  have b1: "broadcast2 (\<lambda>p t. p = t) ?pred ?true = Inr ?acc"
    using len(1) acc by (simp add: broadcast2_def)
  have b2: "broadcast2 (\<lambda>a m. a \<and> m) ?acc ?mask = Inr ?acc'"
    using len(2) acc' by (simp add: broadcast2_def)
  have run: "accuracy mlm_logits mlm_labels pad =
      (if count_true ?mask = 0 then Inl ZeroDivisionError
       else Inr (of_nat (count_true ?acc') / of_nat (count_true ?mask),
                 count_true ?acc', count_true ?mask))"
    using assms(5)
    unfolding accuracy_def Let_def assms(3,4) true b1 sum.case mask b2
    by simp
  have total: "count_true ?mask = labelled_total mlm_labels pad"
    using count_true_positions [of "labelled_at mlm_labels pad" "[0..<?T]" "[0..<?B]"]
    by (simp add: labelled_total_def positions_def labelled_at_def)
  have nonempty: "cells mlm_logits ! t ! b \<noteq> []" if "t < ?T" "b < ?B" for t b
  proof -
    from assms(1,3) that have "list_all (\<lambda>r. length r = size2 mlm_logits) (cells mlm_logits ! t)"
      and "length (cells mlm_logits ! t) = size1 mlm_logits"
      by (simp_all add: wf_tensor3_def list_all_length)
    with assms(4) that have "length (cells mlm_logits ! t ! b) = size2 mlm_logits"
      by (simp add: list_all_length)
    with assms(5) show ?thesis
      by auto
  qed
  have same: "filter (\<lambda>(b, t). ?P b t = ?L b t \<and> ?L b t \<noteq> pad) (List.product [0..<?B] [0..<?T])
            = filter (correct_at mlm_logits mlm_labels pad) (List.product [0..<?B] [0..<?T])"
  proof (rule filter_cong [OF refl])
    fix p
    assume "p \<in> set (List.product [0..<?B] [0..<?T])"
    then obtain b t where p: "p = (b, t)" "b < ?B" "t < ?T"
      by auto
    from argmax_eq_iff [OF nonempty [OF p(3,2)], of "?L b t"] p(1)
    show "(case p of (b, t) \<Rightarrow> ?P b t = ?L b t \<and> ?L b t \<noteq> pad)
            = correct_at mlm_logits mlm_labels pad p"
      by (auto simp: correct_at_def)
  qed
  have correct: "count_true ?acc' = correct_total mlm_logits mlm_labels pad"
    using count_true_positions
      [of "\<lambda>(b, t). ?P b t = ?L b t \<and> ?L b t \<noteq> pad" "[0..<?T]" "[0..<?B]"] same
    by (simp add: correct_total_def positions_def)
  have zero: "labelled_total mlm_labels pad = 0
            \<longleftrightarrow> (\<forall>l \<in> set (labels_of mlm_labels). l = pad)"
  proof -
    have "count_true ?mask = 0 \<longleftrightarrow> (\<forall>l \<in> set ?true. l = pad)"
      unfolding mask [symmetric] by (auto simp: count_true_def filter_empty_conv)
    also have "set ?true = set (labels_of mlm_labels)"
      unfolding true [symmetric] labels_of_def by (rule transpose01_set [OF assms(2)])
    finally show ?thesis
      by (simp add: total)
  qed
  have le: "correct_total mlm_logits mlm_labels pad \<le> labelled_total mlm_labels pad"
    unfolding correct [symmetric] total [symmetric] acc' [symmetric]
    using len(2) by (rule count_true_and)
  from run total correct zero le show ?thesis
    by simp
qed

lemmas accuracy_eval = accuracy_def Let_def broadcast2_def count_true_def transpose01_def
  argmax_def wf_tensor2_def wf_tensor3_def labels_of_def labelled_total_def correct_total_def
  positions_def labelled_at_def correct_at_def first_max_def

text \<open>
  Predictions \<open>[3, 5, 2, 7]\<close>: against the labels \<open>[0, 5, 0, 7]\<close>, 2 correct of 2;
  against \<open>[0, 5, 0, 6]\<close>, 1 correct of 2; against labels that are all 0, division
  by zero.
\<close>

theorem accuracy_division_witness:
  "wf_tensor3 \<lparr>size0 = 4, size1 = 1, size2 = 8,
      cells = [[[0, 0, 0, 1, 0, 0, 0, 0 :: rat]], [[0, 0, 0, 0, 0, 1, 0, 0]],
               [[0, 0, 1, 0, 0, 0, 0, 0]], [[0, 0, 0, 0, 0, 0, 0, 1]]]\<rparr> \<and>
   wf_tensor2 \<lparr>dim0 = 4, dim1 = 1, rows = [[0], [5], [0], [7 :: int]]\<rparr> \<and>
   wf_tensor2 \<lparr>dim0 = 4, dim1 = 1, rows = [[0], [5], [0], [6 :: int]]\<rparr> \<and>
   wf_tensor2 \<lparr>dim0 = 4, dim1 = 1, rows = [[0], [0], [0], [0 :: int]]\<rparr> \<and>
   accuracy \<lparr>size0 = 4, size1 = 1, size2 = 8,
      cells = [[[0, 0, 0, 1, 0, 0, 0, 0]], [[0, 0, 0, 0, 0, 1, 0, 0]],
               [[0, 0, 1, 0, 0, 0, 0, 0]], [[0, 0, 0, 0, 0, 0, 0, 1]]]\<rparr>
     \<lparr>dim0 = 4, dim1 = 1, rows = [[0], [5], [0], [7]]\<rparr> 0 = Inr (1, 2, 2) \<and>
   accuracy \<lparr>size0 = 4, size1 = 1, size2 = 8,
      cells = [[[0, 0, 0, 1, 0, 0, 0, 0]], [[0, 0, 0, 0, 0, 1, 0, 0]],
               [[0, 0, 1, 0, 0, 0, 0, 0]], [[0, 0, 0, 0, 0, 0, 0, 1]]]\<rparr>
     \<lparr>dim0 = 4, dim1 = 1, rows = [[0], [5], [0], [6]]\<rparr> 0 = Inr (1 / 2, 1, 2) \<and>
   correct_total \<lparr>size0 = 4, size1 = 1, size2 = 8,
      cells = [[[0, 0, 0, 1, 0, 0, 0, 0]], [[0, 0, 0, 0, 0, 1, 0, 0]],
               [[0, 0, 1, 0, 0, 0, 0, 0]], [[0, 0, 0, 0, 0, 0, 0, 1]]]\<rparr>
     \<lparr>dim0 = 4, dim1 = 1, rows = [[0], [5], [0], [6]]\<rparr> 0 = 1 \<and>
   labelled_total \<lparr>dim0 = 4, dim1 = 1, rows = [[0], [5], [0], [6]]\<rparr> 0 = 2 \<and>
   accuracy \<lparr>size0 = 4, size1 = 1, size2 = 8,
      cells = [[[0, 0, 0, 1, 0, 0, 0, 0]], [[0, 0, 0, 0, 0, 1, 0, 0]],
               [[0, 0, 1, 0, 0, 0, 0, 0]], [[0, 0, 0, 0, 0, 0, 0, 1]]]\<rparr>
     \<lparr>dim0 = 4, dim1 = 1, rows = [[0], [0], [0], [0]]\<rparr> 0 = Inl ZeroDivisionError \<and>
   labelled_total \<lparr>dim0 = 4, dim1 = 1, rows = [[0], [0], [0], [0]]\<rparr> 0 = 0"
  using accuracy_division [of "\<lparr>size0 = 4, size1 = 1, size2 = 8,
      cells = [[[0, 0, 0, 1, 0, 0, 0, 0]], [[0, 0, 0, 0, 0, 1, 0, 0]],
               [[0, 0, 1, 0, 0, 0, 0, 0]], [[0, 0, 0, 0, 0, 0, 0, 1]]]\<rparr>"
      "\<lparr>dim0 = 4, dim1 = 1, rows = [[0], [5], [0], [7]]\<rparr>" 0]
    accuracy_division [of "\<lparr>size0 = 4, size1 = 1, size2 = 8,
      cells = [[[0, 0, 0, 1, 0, 0, 0, 0]], [[0, 0, 0, 0, 0, 1, 0, 0]],
               [[0, 0, 1, 0, 0, 0, 0, 0]], [[0, 0, 0, 0, 0, 0, 0, 1]]]\<rparr>"
      "\<lparr>dim0 = 4, dim1 = 1, rows = [[0], [5], [0], [6]]\<rparr>" 0]
    accuracy_division [of "\<lparr>size0 = 4, size1 = 1, size2 = 8,
      cells = [[[0, 0, 0, 1, 0, 0, 0, 0]], [[0, 0, 0, 0, 0, 1, 0, 0]],
               [[0, 0, 1, 0, 0, 0, 0, 0]], [[0, 0, 0, 0, 0, 0, 0, 1]]]\<rparr>"
      "\<lparr>dim0 = 4, dim1 = 1, rows = [[0], [0], [0], [0]]\<rparr>" 0]
  by (simp add: accuracy_eval upt_rec)

section \<open>Random replacement and the padding mask\<close>

text \<open>
  Claim C9. With the vocabulary \<open>[PAD] [UNK] [CLS] [SEP] [MASK] A C G T\<close> and the
  default rates, the sequence \<open>[CLS] A C [SEP]\<close> and a tape whose draws take the
  random-replacement branch: position 2, which holds \<open>C\<close>, is committed and its
  corrupted token is 0, the value of \<open>PAD_IDX\<close>. Other draws of the same branch give the
  IDs of \<open>[UNK]\<close>, \<open>[CLS]\<close>, \<open>[SEP]\<close> and \<open>[MASK]\<close>. Collated alone, the sample is
  not padded (the tensors have its length 4), and the mask is true at position 2.
\<close>

theorem random_replacement_pad:
  "get_masked_sample dna_dataset [PyInt 2, PyInt 5, PyInt 6, PyInt 3]
       [0, 2 ^ 53 - 1, 2 ^ 53 - 1, 0]
     = Inr (([PyInt 2, PyInt 5, PyInt 0, PyInt 3], [PyInt 0, PyInt 0, PyInt 6, PyInt 0]), []) \<and>
   committed dna_dataset [PyInt 2, PyInt 5, PyInt 6, PyInt 3] [0, 2 ^ 53 - 1, 2 ^ 53 - 1, 0]
     = [2] \<and>
   [PyInt 2, PyInt 5, PyInt 0, PyInt 3] ! 2 = PyInt (PAD_IDX dna_dataset) \<and>
   masked_token dna_dataset (PyInt 6) [2 ^ 53 - 1, 2 ^ 53 - 1, 1] = Inr (PyInt 1, []) \<and>
   masked_token dna_dataset (PyInt 6) [2 ^ 53 - 1, 2 ^ 53 - 1, 2] = Inr (CLS_IDX dna_dataset, []) \<and>
   masked_token dna_dataset (PyInt 6) [2 ^ 53 - 1, 2 ^ 53 - 1, 3] = Inr (SEP_IDX dna_dataset, []) \<and>
   masked_token dna_dataset (PyInt 6) [2 ^ 53 - 1, 2 ^ 53 - 1, 4] = Inr (MASK_IDS dna_dataset, []) \<and>
   tensor_long [PyInt 2, PyInt 5, PyInt 0, PyInt 3] = Some [2, 5, 0, 3] \<and>
   tensor_long [PyInt 0, PyInt 0, PyInt 6, PyInt 0] = Some [0, 0, 6, 0] \<and>
   generate_batch dna_dataset [([2, 5, 0, 3], [0, 0, 6, 0])]
     = Inr (\<lparr>dim0 = 4, dim1 = 1, rows = [[2], [5], [0], [3]]\<rparr>,
            \<lparr>dim0 = 1, dim1 = 4, rows = [[False, False, True, False]]\<rparr>,
            \<lparr>dim0 = 4, dim1 = 1, rows = [[0], [0], [6], [0]]\<rparr>)"
  by (simp add: mask_eval batch_eval dna_fields tensor_long_def upt_rec)

section \<open>The cache key\<close>

lemma cache_key_unrendered:
  "cache_key str_float
     (c\<lparr>vocab := v, PAD_IDX := p, batch_size := bs, max_position_embeddings := mpe,
        inital_site := isite, number_of_group := ngroup\<rparr>) split filepath
     = cache_key str_float c split filepath"
  by (simp add: cache_key_def param_postfix_def)

lemmas key_eval = cache_key_def cache_data_path_def param_postfix_def str_sen_len_def
  str_int_def str_nat.simps float_repr_def cache_def

text \<open>
  Claim C6, at the inputs where the key fails to tell builds apart. With the default
  parameters the source paths \<open>./data/a.csv\<close> and \<open>./other/b.csv\<close> derive one key, the
  path being cut at its first \<open>.\<close>; the masked rates \<open>0.0\<close> and \<open>1.0\<close> derive one key,
  their renderings agreeing from the third character on; \<open>max_position_embeddings\<close>,
  \<open>inital_site\<close> and \<open>number_of_group\<close>, which the build reads, are not in the key. After
  the build of \<open>./data/a.csv\<close>, the build of \<open>./other/b.csv\<close> finds the file of the
  first and loads its dataset.
\<close>

theorem cache_key_collision:
  "cache_key float_repr dna_dataset ''train'' ''./data/a.csv''
     = ''_train_mlNone_rs2022_mr15_mtr8_mtur5.pt'' \<and>
   cache_key float_repr dna_dataset ''train'' ''./other/b.csv''
     = ''_train_mlNone_rs2022_mr15_mtr8_mtur5.pt'' \<and>
   cache_key float_repr (dna_dataset\<lparr>masked_rate := 0\<rparr>) ''train'' ''data/a.csv''
     = ''data/a_train_mlNone_rs2022_mr0_mtr8_mtur5.pt'' \<and>
   cache_key float_repr (dna_dataset\<lparr>masked_rate := 1\<rparr>) ''train'' ''data/a.csv''
     = ''data/a_train_mlNone_rs2022_mr0_mtr8_mtur5.pt'' \<and>
   cache_key float_repr
       (dna_dataset\<lparr>max_position_embeddings := 128, inital_site := 512, number_of_group := 4\<rparr>)
       ''train'' ''data/a.csv''
     = cache_key float_repr dna_dataset ''train'' ''data/a.csv'' \<and>
   ''dataset of b'' \<noteq> ''dataset of a'' \<and>
   fst (cache ''dataset of b'' ''./other/b.csv'' (''train'' @ param_postfix float_repr dna_dataset)
          (snd (cache ''dataset of a'' ''./data/a.csv''
                  (''train'' @ param_postfix float_repr dna_dataset) Map.empty)))
     = ''dataset of a''"
  by (simp add: key_eval dna_fields double_literals)

end
